theory Spec2Isabelle
  imports Main
begin

section \<open>The flood-warning watchdog (main.py) as a state-passing model\<close>

text \<open>
  The program is one Python class, \<open>WaterAlarm\<close>, whose methods mutate the object and talk
  to two devices: a GSM modem (gsmmodem) and a relay board (seeed\_relay\_v1). A method is
  modelled as a function from the object before the call to the object after it. A Python
  exception leaves the object as mutated so far, so a raising call returns the exception
  together with that object (\<open>Inl\<close>); a returning call returns the object (\<open>Inr\<close>).

  What the devices do is input: the \<open>n\<close>-th \<open>sendSms\<close> call raises what \<open>send_faults n\<close>
  says, every tick of the main loop receives what its sleep and its inbox drain produce, and
  the two calls of the cleanup block receive their outcomes. Sleeping takes no part in the
  state, so \<open>time.sleep\<close> only appears where it can be interrupted.
\<close>

subsection \<open>Exceptions\<close>

datatype exn =
    ValueError string
  | AttributeError string
  | NameError string
  | KeyboardInterrupt
  | Fault string

text \<open>\<open>Fault c\<close> is an instance of the \<open>Exception\<close> subclass named \<open>c\<close> raised inside a device
  library. \<open>KeyboardInterrupt\<close> derives from \<open>BaseException\<close> only: no \<open>except Exception\<close>
  clause catches it.\<close>

fun is_Exception :: "exn \<Rightarrow> bool" where
  "is_Exception KeyboardInterrupt = False"
| "is_Exception _ = True"

fun class_name :: "exn \<Rightarrow> string" where
  "class_name (ValueError _) = ''ValueError''"
| "class_name (AttributeError _) = ''AttributeError''"
| "class_name (NameError _) = ''NameError''"
| "class_name KeyboardInterrupt = ''KeyboardInterrupt''"
| "class_name (Fault c) = c"

subsection \<open>Decimal rendering of integers, as an f-string does\<close>

definition digit :: "nat \<Rightarrow> char" where
  "digit d = ''0123456789'' ! d"

function decimal :: "nat \<Rightarrow> string" where
  "decimal n = (if n < 10 then [digit n] else decimal (n div 10) @ [digit (n mod 10)])"
  by pat_completeness auto
termination
  by (relation "measure id") auto

declare decimal.simps [simp del]

definition format_int :: "int \<Rightarrow> string" where
  "format_int i = (if 0 \<le> i then decimal (nat i) else CHR ''-'' # decimal (nat (- i)))"

subsection \<open>The relay board\<close>

text \<open>The board is the on/off status of its ports. \<open>on\<close>, \<open>off\<close>, \<open>get_port_status\<close> and
  \<open>all_off\<close> are the four calls the program makes on it.\<close>

type_synonym relay_ports = "nat \<Rightarrow> bool"

definition relay_on :: "relay_ports \<Rightarrow> nat \<Rightarrow> relay_ports" where
  "relay_on b n = b(n := True)"

definition relay_off :: "relay_ports \<Rightarrow> nat \<Rightarrow> relay_ports" where
  "relay_off b n = b(n := False)"

definition get_port_status :: "relay_ports \<Rightarrow> nat \<Rightarrow> bool" where
  "get_port_status b n = b n"

definition all_off :: "relay_ports \<Rightarrow> relay_ports" where
  "all_off b = (\<lambda>n. False)"

subsection \<open>The object\<close>

text \<open>
  The first twelve fields are the attributes assigned from the constructor's arguments
  (lines 50--61). \<open>relay_board\<close> is \<open>None\<close> until line 79 assigns it: reading the attribute
  before that raises \<open>AttributeError\<close>. \<open>missing_loops\<close> and \<open>awaiting_message\<close> are first
  assigned by \<open>request_status\<close>, which the main loop calls before anything reads them.
  \<open>modem_open\<close> is the state of the modem connection, \<open>sms_calls\<close> the \<open>sendSms\<close> calls made
  so far (recipient and text, in order), \<open>console\<close> the lines printed so far, and
  \<open>signal\<close> the value the modem would report as its signal strength.
\<close>

record water_alarm =
  phone_number :: string
  request_message :: string
  water_message :: string
  no_water_message :: string
  relay_board_address :: nat
  red_relay :: nat
  amber_relay :: nat
  green_relay :: nat
  alert_numbers :: "string list"
  water_time :: int
  disconnect_time :: int
  log :: bool
  relay_board :: "relay_ports option"
  missing_responses :: int
  water :: bool
  times_water_detected :: int
  missing_loops :: int
  awaiting_message :: bool
  modem_open :: bool
  sms_calls :: "(string \<times> string) list"
  send_faults :: "nat \<Rightarrow> exn option"
  signal :: int
  console :: "string list"

type_synonym result = "(exn \<times> water_alarm) + water_alarm"

definition and_then :: "result \<Rightarrow> (water_alarm \<Rightarrow> result) \<Rightarrow> result" where
  "and_then r f = (case r of Inl x \<Rightarrow> Inl x | Inr s \<Rightarrow> f s)"

definition print :: "string \<Rightarrow> water_alarm \<Rightarrow> water_alarm" where
  "print line s = s\<lparr>console := console s @ [line]\<rparr>"

text \<open>A statement that calls \<open>self.relay_board\<close>: the attribute must exist.\<close>

definition on_board :: "water_alarm \<Rightarrow> (relay_ports \<Rightarrow> relay_ports) \<Rightarrow> result" where
  "on_board s f =
     (case relay_board s of
        None \<Rightarrow> Inl (AttributeError ''relay_board'', s)
      | Some b \<Rightarrow> Inr (s\<lparr>relay_board := Some (f b)\<rparr>))"

text \<open>
  \<open>threshold / 2\<close> is Python's true division. For the thresholds of this program (minutes,
  far below \<open>2 ^ 53\<close>) the quotient is exact, and Python compares an integer with a float by
  value, so \<open>count >= threshold / 2\<close> is \<open>threshold \<le> 2 * count\<close> and \<open>count < threshold / 2\<close>
  is \<open>2 * count < threshold\<close>.
\<close>

definition ge_half :: "int \<Rightarrow> int \<Rightarrow> bool" where
  "ge_half count threshold = (threshold \<le> 2 * count)"

definition lt_half :: "int \<Rightarrow> int \<Rightarrow> bool" where
  "lt_half count threshold = (2 * count < threshold)"

subsection \<open>exception\_handler (lines 149--160)\<close>

text \<open>
  Line 158 reads the bare name \<open>modem\<close>. Python resolves a name in the function's local
  scope, then in the module's globals, then in the builtins. The locals of
  \<open>exception_handler\<close> are its parameters; the globals are the names main.py binds at module
  level; no builtin is called \<open>modem\<close>.
\<close>

definition module_globals :: "string list" where
  "module_globals =
     [''seeed_relay_v1'', ''log'', ''gsmmodem'', ''dotenv'', ''time'', ''json'', ''os'',
      ''logging'', ''debug'', ''WaterAlarm'', ''phone_number'', ''alert_phone_numbers'',
      ''wateralarm'']"

definition handler_locals :: "string list" where
  "handler_locals = [''self'', ''e'', ''task'']"

definition load_name :: "string \<Rightarrow> exn + unit" where
  "load_name x =
     (if x \<in> set handler_locals \<or> x \<in> set module_globals then Inr () else Inl (NameError x))"

definition read_signal_strength :: "water_alarm \<Rightarrow> exn + int" where
  "read_signal_strength s =
     (case load_name ''modem'' of Inl e \<Rightarrow> Inl e | Inr _ \<Rightarrow> Inr (signal s))"

definition exception_handler :: "water_alarm \<Rightarrow> exn \<Rightarrow> string \<Rightarrow> result" where
  "exception_handler s e task =
     (let s1 = print (''Encountered a '' @ class_name e @ '' while '' @ task @ ''.'') s in
      case relay_board s1 of
        None \<Rightarrow> Inl (AttributeError ''relay_board'', s1)
      | Some b \<Rightarrow>
          (let s2 = (if \<not> get_port_status b (amber_relay s1)
                     then s1\<lparr>relay_board :=
                            Some (relay_off (relay_on b (amber_relay s1)) (amber_relay s1))\<rparr>
                     else s1)
           in if log s2
              then (case read_signal_strength s2 of
                      Inr v \<Rightarrow>
                        Inr (print (''Signal strength: '' @ format_int v @ '' / 100'') s2)
                    | Inl x \<Rightarrow>
                        if is_Exception x then Inr (print ''Unable to get signal strength.'' s2)
                        else Inl (x, s2))
              else Inr s2))"

subsection \<open>light (lines 162--177)\<close>

definition light :: "water_alarm \<Rightarrow> string \<Rightarrow> result" where
  "light s l =
     (if l = ''red'' then
        on_board s (\<lambda>b. relay_on (relay_off (relay_off b (amber_relay s)) (green_relay s))
                                  (red_relay s))
      else if l = ''amber'' then
        on_board s (\<lambda>b. relay_on (relay_off b (green_relay s)) (amber_relay s))
      else if l = ''green'' then
        on_board s (\<lambda>b. relay_on (relay_off (relay_off b (amber_relay s)) (red_relay s))
                                  (green_relay s))
      else Inr (print (''Unknown light '' @ l @ ''.'') s))"

subsection \<open>send\_message and alert\_humans (lines 179--197)\<close>

text \<open>The apostrophe, which the f-strings put around message texts.\<close>

definition apostrophe :: string where
  "apostrophe = [CHR 0x27]"

text \<open>Every \<open>sendSms\<close> call is recorded, whether the modem then raises or not. The
  \<open>except Exception\<close> clause hands an \<open>Exception\<close> to \<open>exception_handler\<close>; anything else
  propagates.\<close>

definition send_message :: "water_alarm \<Rightarrow> string \<Rightarrow> string \<Rightarrow> result" where
  "send_message s number message =
     (let s1 = s\<lparr>sms_calls := sms_calls s @ [(number, message)]\<rparr> in
      case send_faults s (length (sms_calls s)) of
        None \<Rightarrow> Inr s1
      | Some e \<Rightarrow>
          if is_Exception e
          then exception_handler s1 e
                 (''sending message '' @ apostrophe @ message @ apostrophe @ '' to '' @ number)
          else Inl (e, s1))"

definition water_text :: "water_alarm \<Rightarrow> string" where
  "water_text s =
     ''Water has been detected at XFEL for the past '' @
     format_int (times_water_detected s * 2) @ ''m!''"

definition disconnect_text :: "water_alarm \<Rightarrow> string" where
  "disconnect_text s =
     ''The connection to the flood monitoring system at XFEL has been lost for '' @
     format_int (missing_responses s * 2) @ ''m.''"

definition restored_text :: string where
  "restored_text = ''The connection to the flood monitoring system has been restored.''"

definition removed_text :: string where
  "removed_text = ''The water is no longer detected.''"

text \<open>\<open>alert_loop\<close> is the \<open>for number in self.alert_numbers\<close> loop over the numbers left.\<close>

fun alert_loop :: "water_alarm \<Rightarrow> string \<Rightarrow> string list \<Rightarrow> result" where
  "alert_loop s event [] = Inr s"
| "alert_loop s event (number # numbers) =
     and_then
       (if event = ''water'' then send_message s number (water_text s)
        else if event = ''disconnect'' then send_message s number (disconnect_text s)
        else if event = ''restored'' then send_message s number restored_text
        else if event = ''removed'' then send_message s number removed_text
        else Inl (ValueError (''Unknown event '' @ event), s))
       (\<lambda>s'. alert_loop s' event numbers)"

definition alert_humans :: "water_alarm \<Rightarrow> string \<Rightarrow> result" where
  "alert_humans s event = alert_loop s event (alert_numbers s)"

subsection \<open>update\_status (lines 132--147)\<close>

definition update_status :: "water_alarm \<Rightarrow> result" where
  "update_status s =
     (if times_water_detected s = 0 then
        and_then (light s ''green'') (\<lambda>s1.
        and_then (if water s1 then alert_humans s1 ''removed'' else Inr s1) (\<lambda>s2.
        let s3 = s2\<lparr>water := False\<rparr> in
        Inr (if log s3
             then print (''Received '' @ apostrophe @ no_water_message s3 @ apostrophe @
                         '', turning green light on.'') s3
             else s3)))
      else if 0 < times_water_detected s \<and> lt_half (times_water_detected s) (water_time s) then
        Inr (print (''Water has been detected for '' @
                    format_int (times_water_detected s * 2) @
                    ''m. Will alert others at '' @ format_int (water_time s) @ ''m.'') s)
      else if ge_half (times_water_detected s) (water_time s) then
        and_then (light s ''red'') (\<lambda>s1.
        and_then (alert_humans s1 ''water'') (\<lambda>s2.
        let s3 = s2\<lparr>water := True\<rparr> in
        Inr (print (''Water has been detected for the past '' @
                    format_int (times_water_detected s3 * 2) @
                    ''m, turning red light on.'') s3)))
      else Inr s)"

subsection \<open>parse\_message (lines 113--130)\<close>

datatype sms = Sms (sms_number: string) (sms_text: string)

definition parse_message :: "water_alarm \<Rightarrow> sms \<Rightarrow> result" where
  "parse_message s message =
     (if sms_number message = phone_number s then
        and_then (if ge_half (missing_responses s) (disconnect_time s)
                  then alert_humans s ''restored'' else Inr s) (\<lambda>s1.
        let s2 = s1\<lparr>missing_loops := 0, missing_responses := 0, awaiting_message := False\<rparr> in
        if sms_text message = water_message s2 then
          update_status (s2\<lparr>times_water_detected := times_water_detected s2 + 1\<rparr>)
        else if sms_text message = no_water_message s2 then
          update_status (s2\<lparr>times_water_detected := 0\<rparr>)
        else
          Inr (print (''Unknown message '' @ apostrophe @ sms_text message @ apostrophe) s2))
      else Inr (print (''Unknown number '' @ sms_number message) s))"

subsection \<open>request\_status and check\_for\_answer (lines 93--111)\<close>

definition request_status :: "water_alarm \<Rightarrow> result" where
  "request_status s =
     and_then (send_message s (phone_number s) (request_message s)) (\<lambda>s1.
     let s2 = s1\<lparr>missing_loops := 0, awaiting_message := True\<rparr> in
     Inr (if log s2 then print ''Sent request.'' s2 else s2))"

text \<open>\<open>parse_all\<close> is the \<open>for message in messages\<close> loop over the messages left.\<close>

fun parse_all :: "water_alarm \<Rightarrow> sms list \<Rightarrow> result" where
  "parse_all s [] = Inr s"
| "parse_all s (message # messages) =
     and_then (parse_message s message) (\<lambda>s'. parse_all s' messages)"

text \<open>\<open>listed\<close> is what \<open>listStoredSms(delete=True)\<close> does on this call: it raises, or it
  returns the stored messages.\<close>

definition check_for_answer :: "water_alarm \<Rightarrow> exn + sms list \<Rightarrow> result" where
  "check_for_answer s listed =
     (case (case listed of
              Inr messages \<Rightarrow> Inr (s, messages)
            | Inl e \<Rightarrow>
                if is_Exception e
                then (case exception_handler s e ''checking for new messages'' of
                        Inl x \<Rightarrow> Inl x
                      | Inr s' \<Rightarrow> Inr (s', []))
                else Inl (e, s))
      of Inl x \<Rightarrow> Inl x
       | Inr (s1, messages) \<Rightarrow>
           parse_all
             (if length messages = 0 \<and> awaiting_message s1
              then s1\<lparr>missing_loops := missing_loops s1 + 1\<rparr> else s1)
             messages)"

subsection \<open>mainloop (lines 199--220)\<close>

text \<open>What one tick receives: the fault, if any, that ends its \<open>time.sleep\<close> (an operator's
  Ctrl-C is \<open>Some KeyboardInterrupt\<close>), and what \<open>listStoredSms\<close> does afterwards.\<close>

datatype tick = Tick (sleep_fault: "exn option") (listed: "exn + sms list")

definition tick_body :: "water_alarm \<Rightarrow> nat \<Rightarrow> tick \<Rightarrow> result" where
  "tick_body s i t =
     and_then (if i = 0 then request_status s else Inr s) (\<lambda>s1.
     case sleep_fault t of
       Some e \<Rightarrow> Inl (e, s1)
     | None \<Rightarrow> check_for_answer s1 (listed t))"

text \<open>\<open>for_range s ts k\<close> runs the first \<open>k\<close> iterations of \<open>for i in range(12)\<close>, iteration
  \<open>i\<close> receiving \<open>ts i\<close>.\<close>

fun for_range :: "water_alarm \<Rightarrow> (nat \<Rightarrow> tick) \<Rightarrow> nat \<Rightarrow> result" where
  "for_range s ts 0 = Inr s"
| "for_range s ts (Suc k) = and_then (for_range s ts k) (\<lambda>s'. tick_body s' k (ts k))"

text \<open>The two checks after the \<open>for\<close> loop (lines 211--217).\<close>

definition cycle_end :: "water_alarm \<Rightarrow> result" where
  "cycle_end s =
     (let s1 = (if missing_loops s = 12
                then (let s' = s\<lparr>missing_responses := missing_responses s + 1\<rparr> in
                      print (''No answer received in the last '' @
                             format_int (missing_responses s' * 2) @ ''m!'') s')
                else s)
      in if ge_half (missing_responses s1) (disconnect_time s1)
         then and_then
                (light (print (''No answer received in the last '' @
                               format_int (missing_responses s1 * 2) @
                               '' minutes, turning amber light on.'') s1) ''amber'')
                (\<lambda>s2. alert_humans s2 ''disconnect'')
         else Inr s1)"

text \<open>One pass of the body of \<open>while True\<close>.\<close>

definition cycle :: "water_alarm \<Rightarrow> (nat \<Rightarrow> tick) \<Rightarrow> result" where
  "cycle s ts = and_then (for_range s ts 12) cycle_end"

text \<open>\<open>cycles s inp n\<close> runs the first \<open>n\<close> passes, pass \<open>c\<close> receiving \<open>inp c\<close>.\<close>

fun cycles :: "water_alarm \<Rightarrow> (nat \<Rightarrow> nat \<Rightarrow> tick) \<Rightarrow> nat \<Rightarrow> result" where
  "cycles s inp 0 = Inr s"
| "cycles s inp (Suc n) = and_then (cycles s inp n) (\<lambda>s'. cycle s' (inp n))"

text \<open>\<open>while True\<close> from pass \<open>c\<close> on. The loop has no \<open>break\<close>: it leaves only by an exception,
  and \<open>None\<close> is the loop that runs forever.\<close>

partial_function (option) while_true ::
  "water_alarm \<Rightarrow> (nat \<Rightarrow> nat \<Rightarrow> tick) \<Rightarrow> nat \<Rightarrow> (exn \<times> water_alarm) option" where
  "while_true s inp c =
     (case cycle s (inp c) of
        Inl x \<Rightarrow> Some x
      | Inr s' \<Rightarrow> while_true s' inp (Suc c))"

declare while_true.simps [code]

text \<open>The \<open>finally\<close> block. \<open>off_fault\<close> and \<open>close_fault\<close> are what \<open>all_off()\<close> and
  \<open>modem.close()\<close> raise, if anything. There is no \<open>try\<close> inside the block.\<close>

definition cleanup :: "water_alarm \<Rightarrow> exn option \<Rightarrow> exn option \<Rightarrow> result" where
  "cleanup s off_fault close_fault =
     (case relay_board s of
        None \<Rightarrow> Inl (AttributeError ''relay_board'', s)
      | Some b \<Rightarrow>
          (case off_fault of
             Some e \<Rightarrow> Inl (e, s)
           | None \<Rightarrow>
               (let s1 = s\<lparr>relay_board := Some (all_off b)\<rparr> in
                case close_fault of
                  Some e \<Rightarrow> Inl (e, s1)
                | None \<Rightarrow> Inr (s1\<lparr>modem_open := False\<rparr>))))"

text \<open>\<open>mainloop\<close> never returns a value: it runs forever (\<open>None\<close>) or ends with an exception,
  the one that left the loop or, if the \<open>finally\<close> block raises, that one instead.\<close>

definition mainloop ::
  "water_alarm \<Rightarrow> (nat \<Rightarrow> nat \<Rightarrow> tick) \<Rightarrow> exn option \<Rightarrow> exn option \<Rightarrow>
   (exn \<times> water_alarm) option" where
  "mainloop s inp off_fault close_fault =
     (case while_true s inp 0 of
        None \<Rightarrow> None
      | Some (e, s1) \<Rightarrow>
          (case cleanup s1 off_fault close_fault of
             Inl x \<Rightarrow> Some x
           | Inr s2 \<Rightarrow> Some (e, s2)))"

subsection \<open>The constructor (lines 15--91)\<close>

text \<open>The loop of lines 70--76 from attempt \<open>k\<close> on; \<open>attempts k\<close> is what the \<open>k\<close>-th try to
  open and connect the modem raises, if anything.\<close>

partial_function (option) connect_loop ::
  "water_alarm \<Rightarrow> (nat \<Rightarrow> exn option) \<Rightarrow> nat \<Rightarrow> result option" where
  "connect_loop s attempts k =
     (case attempts k of
        None \<Rightarrow> Some (Inr (s\<lparr>modem_open := True\<rparr>))
      | Some e \<Rightarrow>
          if is_Exception e
          then (case exception_handler s e ''connecting the modem. Trying again'' of
                  Inl x \<Rightarrow> Some (Inl x)
                | Inr s' \<Rightarrow> connect_loop s' attempts (Suc k))
          else Some (Inl (e, s)))"

declare connect_loop.simps [code]

text \<open>
  The arguments are the constructor's, in its order. The last four are the environment:
  the outcomes of the connection attempts, the faults of later \<open>sendSms\<close> calls, the modem's
  signal strength and the ports of the relay board as the program finds them. The record
  is built with the values lines 80--82 assign; nothing reads them earlier.
\<close>

definition WaterAlarm ::
  "string list \<Rightarrow> string \<Rightarrow> string \<Rightarrow> string \<Rightarrow> string \<Rightarrow> nat \<Rightarrow> nat \<Rightarrow> nat \<Rightarrow> nat \<Rightarrow> nat \<Rightarrow>
   int \<Rightarrow> int \<Rightarrow> bool \<Rightarrow>
   (nat \<Rightarrow> exn option) \<Rightarrow> (nat \<Rightarrow> exn option) \<Rightarrow> int \<Rightarrow> relay_ports \<Rightarrow> result option" where
  "WaterAlarm alert_phone_numbers' phone_number' request_message' water_message'
     no_water_message' relay_board_address' baudrate' red_relay' amber_relay' green_relay'
     disconnect_time' water_time' log_everything' attempts faults signal' ports =
     (let s = \<lparr>phone_number = phone_number', request_message = request_message',
                water_message = water_message', no_water_message = no_water_message',
                relay_board_address = relay_board_address',
                red_relay = red_relay', amber_relay = amber_relay', green_relay = green_relay',
                alert_numbers = alert_phone_numbers',
                water_time = water_time', disconnect_time = disconnect_time',
                log = log_everything',
                relay_board = None, missing_responses = 0, water = False,
                times_water_detected = 0, missing_loops = 0, awaiting_message = False,
                modem_open = False, sms_calls = [], send_faults = faults, signal = signal',
                console = []\<rparr>
      in if disconnect_time s mod 2 \<noteq> 0
         then Some (Inl (ValueError (apostrophe @ ''water_time'' @ apostrophe @
                                     '' must be a multiple of 2!''), s))
         else if disconnect_time s mod 2 \<noteq> 0
         then Some (Inl (ValueError (apostrophe @ ''disconnect_time'' @ apostrophe @
                                     '' must be a multiple of 2!''), s))
         else
           (case connect_loop (if log s then print ''Connecting modem'' s else s) attempts 0 of
              None \<Rightarrow> None
            | Some (Inl x) \<Rightarrow> Some (Inl x)
            | Some (Inr s1) \<Rightarrow>
                (let s2 = (if log s1 then print ''Connecting relay board'' s1 else s1);
                     s3 = s2\<lparr>relay_board := Some ports, missing_responses := 0,
                             water := False, times_water_detected := 0\<rparr>
                 in Some
                      (and_then (on_board s3 (\<lambda>b. relay_on b red_relay')) (\<lambda>s4.
                       and_then (on_board s4 (\<lambda>b. relay_off b red_relay')) (\<lambda>s5.
                       and_then (on_board s5 (\<lambda>b. relay_on b amber_relay')) (\<lambda>s6.
                       and_then (on_board s6 (\<lambda>b. relay_off b amber_relay')) (\<lambda>s7.
                       and_then (on_board s7 (\<lambda>b. relay_on b green_relay')) (\<lambda>s8.
                       on_board s8 (\<lambda>b. relay_off b green_relay'))))))))))"

subsection \<open>Observations and a sample object\<close>

definition state_of :: "result \<Rightarrow> water_alarm" where
  "state_of r = (case r of Inl (e, s) \<Rightarrow> s | Inr s \<Rightarrow> s)"

definition raised :: "result \<Rightarrow> exn option" where
  "raised r = (case r of Inl (e, s) \<Rightarrow> Some e | Inr s \<Rightarrow> None)"

definition lamp :: "water_alarm \<Rightarrow> nat \<Rightarrow> bool" where
  "lamp s n = (case relay_board s of None \<Rightarrow> False | Some b \<Rightarrow> get_port_status b n)"

text \<open>The object as the bottom of main.py configures it (water threshold 4, disconnect
  threshold 10, relays 1, 2 and 3), with two operators, after construction.\<close>

definition sample :: water_alarm where
  "sample =
     \<lparr>phone_number = ''+4915100000001'', request_message = ''Water?'',
      water_message = ''1'', no_water_message = ''0'', relay_board_address = 32,
      red_relay = 1, amber_relay = 2, green_relay = 3,
      alert_numbers = [''+4915100000002'', ''+4915100000003''],
      water_time = 4, disconnect_time = 10, log = True,
      relay_board = Some (\<lambda>n. False), missing_responses = 0, water = False,
      times_water_detected = 0, missing_loops = 0, awaiting_message = False,
      modem_open = True, sms_calls = [], send_faults = (\<lambda>n. None), signal = 80,
      console = []\<rparr>"

subsection \<open>Notions used in the statements\<close>

text \<open>The modem is \<open>polite\<close> when whatever \<open>sendSms\<close> raises is an \<open>Exception\<close>, which
  \<open>send_message\<close> catches.\<close>

definition polite :: "water_alarm \<Rightarrow> bool" where
  "polite s = (\<forall>n e. send_faults s n = Some e \<longrightarrow> is_Exception e)"

text \<open>The text \<open>alert_humans\<close> sends for an event, for the four events it knows.\<close>

definition alert_text :: "water_alarm \<Rightarrow> string \<Rightarrow> string option" where
  "alert_text s event =
     (if event = ''water'' then Some (water_text s)
      else if event = ''disconnect'' then Some (disconnect_text s)
      else if event = ''restored'' then Some restored_text
      else if event = ''removed'' then Some removed_text
      else None)"

text \<open>The \<open>sendSms\<close> calls of the \<open>restored\<close> alert \<open>parse_message\<close> starts with, if any.\<close>

definition restored_alerts :: "water_alarm \<Rightarrow> (string \<times> string) list" where
  "restored_alerts s =
     (if ge_half (missing_responses s) (disconnect_time s)
      then map (\<lambda>n. (n, restored_text)) (alert_numbers s) else [])"

text \<open>The \<open>sendSms\<close> calls that carry the water alert, recognised by the fixed start of its
  text.\<close>

definition water_prefix :: string where
  "water_prefix = ''Water has been detected at XFEL for the past ''"

definition is_water_alert :: "string \<times> string \<Rightarrow> bool" where
  "is_water_alert x = (take (length water_prefix) (snd x) = water_prefix)"

definition water_alerts :: "water_alarm \<Rightarrow> (string \<times> string) list" where
  "water_alerts s = filter is_water_alert (sms_calls s)"

text \<open>What a call leaves alone. \<open>same_setup\<close>: the board stays attached or unattached, and
  the modem connection, the configured number and the faults the modem will raise are
  unchanged. \<open>keeps\<close>: moreover \<open>missing_loops\<close> and \<open>awaiting_message\<close> are unchanged.
  \<open>resets\<close>: the setup is the same and \<open>missing_loops\<close> is unchanged or has been set to 0.
  \<open>grows\<close>: the same, but \<open>missing_loops\<close> may also have grown by one.\<close>

definition same_setup :: "water_alarm \<Rightarrow> water_alarm \<Rightarrow> bool" where
  "same_setup s s' =
     ((relay_board s' = None) = (relay_board s = None) \<and>
      modem_open s' = modem_open s \<and> phone_number s' = phone_number s \<and>
      send_faults s' = send_faults s)"

definition keeps :: "water_alarm \<Rightarrow> water_alarm \<Rightarrow> bool" where
  "keeps s s' =
     (same_setup s s' \<and> missing_loops s' = missing_loops s \<and>
      awaiting_message s' = awaiting_message s)"

definition grows :: "water_alarm \<Rightarrow> water_alarm \<Rightarrow> bool" where
  "grows s s' =
     (same_setup s s' \<and>
      (missing_loops s' = 0 \<or> missing_loops s' = missing_loops s \<or>
       missing_loops s' = missing_loops s + 1))"

definition resets :: "water_alarm \<Rightarrow> water_alarm \<Rightarrow> bool" where
  "resets s s' =
     (same_setup s s' \<and>
      (missing_loops s' = 0 \<or> missing_loops s' = missing_loops s))"

text \<open>The state of the \<open>for\<close> loop after \<open>k\<close> iterations, or at the exception that ended it
  earlier.\<close>

definition ticked :: "water_alarm \<Rightarrow> nat \<Rightarrow> result \<Rightarrow> bool" where
  "ticked s0 k r =
     ((relay_board (state_of r) = None) = (relay_board s0 = None) \<and>
      modem_open (state_of r) = modem_open s0 \<and>
      (case r of
         Inr s \<Rightarrow> if k = 0 then missing_loops s = missing_loops s0
                  else 0 \<le> missing_loops s \<and> missing_loops s \<le> int k
       | Inl (e, s) \<Rightarrow> missing_loops s = missing_loops s0 \<or>
                      0 \<le> missing_loops s \<and> missing_loops s \<le> int k))"

definition bounded :: "water_alarm \<Rightarrow> bool" where
  "bounded s = (0 \<le> missing_loops s \<and> missing_loops s \<le> 12)"

text \<open>A tick is \<open>quiet\<close> when its sleep ends normally and its inbox drain returns no message
  or raises an \<open>Exception\<close>, which \<open>check_for_answer\<close> treats as no message.\<close>

definition quiet :: "tick \<Rightarrow> bool" where
  "quiet t =
     (sleep_fault t = None \<and>
      (case listed t of Inr messages \<Rightarrow> messages = [] | Inl e \<Rightarrow> is_Exception e))"

section \<open>Properties\<close>

subsection \<open>The indicator lights\<close>

lemma light_red_Some:
  "relay_board s = Some b \<Longrightarrow>
   light s ''red'' =
     Inr (s\<lparr>relay_board :=
            Some (relay_on (relay_off (relay_off b (amber_relay s)) (green_relay s))
                           (red_relay s))\<rparr>)"
  by (simp add: light_def on_board_def)

lemma light_amber_Some:
  "relay_board s = Some b \<Longrightarrow>
   light s ''amber'' =
     Inr (s\<lparr>relay_board := Some (relay_on (relay_off b (green_relay s)) (amber_relay s))\<rparr>)"
  by (simp add: light_def on_board_def)

lemma light_green_Some:
  "relay_board s = Some b \<Longrightarrow>
   light s ''green'' =
     Inr (s\<lparr>relay_board :=
            Some (relay_on (relay_off (relay_off b (amber_relay s)) (red_relay s))
                           (green_relay s))\<rparr>)"
  by (simp add: light_def on_board_def)

text \<open>
  C4, as stated, fails: with the amber relay lit, \<open>light("red")\<close> switches it off (line 165
  calls \<open>off\<close> on the amber relay before anything else).
\<close>

theorem light_red_amber_counterexample:
  "lamp (sample\<lparr>relay_board := Some (\<lambda>n. n = 2)\<rparr>) (amber_relay sample) \<and>
   raised (light (sample\<lparr>relay_board := Some (\<lambda>n. n = 2)\<rparr>) ''red'') = None \<and>
   \<not> lamp (state_of (light (sample\<lparr>relay_board := Some (\<lambda>n. n = 2)\<rparr>) ''red''))
          (amber_relay sample)"
  by (simp add: light_red_Some lamp_def raised_def state_of_def sample_def
      get_port_status_def relay_on_def relay_off_def)

text \<open>
  C4, amended: on an object whose three relays are distinct ports of an attached board,
  \<open>light("red")\<close> returns with the red relay on and the green and the amber relay off, and
  \<open>light("amber")\<close> returns with the amber relay on, the green relay off and the red relay
  as it was. Neither call touches any other port or any other attribute.
\<close>

theorem light_red_amber_effect:
  assumes "relay_board s = Some b"
    and "distinct [red_relay s, amber_relay s, green_relay s]"
  shows "raised (light s ''red'') = None \<and>
     lamp (state_of (light s ''red'')) (red_relay s) \<and>
     \<not> lamp (state_of (light s ''red'')) (green_relay s) \<and>
     \<not> lamp (state_of (light s ''red'')) (amber_relay s) \<and>
     (state_of (light s ''red''))\<lparr>relay_board := relay_board s\<rparr> = s \<and>
     raised (light s ''amber'') = None \<and>
     lamp (state_of (light s ''amber'')) (amber_relay s) \<and>
     \<not> lamp (state_of (light s ''amber'')) (green_relay s) \<and>
     lamp (state_of (light s ''amber'')) (red_relay s) = lamp s (red_relay s) \<and>
     (state_of (light s ''amber''))\<lparr>relay_board := relay_board s\<rparr> = s"
  using assms
  by (simp add: light_red_Some light_amber_Some relay_on_def relay_off_def
      lamp_def raised_def state_of_def get_port_status_def)

theorem light_red_amber_effect_witness:
  "raised (light sample ''red'') = None \<and>
   lamp (state_of (light sample ''red'')) 1 \<and>
   \<not> lamp (state_of (light sample ''red'')) 3 \<and>
   \<not> lamp (state_of (light sample ''red'')) 2 \<and>
   raised (light sample ''amber'') = None \<and>
   lamp (state_of (light sample ''amber'')) 2 \<and>
   \<not> lamp (state_of (light sample ''amber'')) 3 \<and>
   \<not> lamp (state_of (light sample ''amber'')) 1"
proof -
  have b: "relay_board sample = Some (\<lambda>n. False)"
    by (simp add: sample_def)
  have d: "distinct [red_relay sample, amber_relay sample, green_relay sample]"
    by (simp add: sample_def)
  have r: "red_relay sample = 1" "amber_relay sample = 2" "green_relay sample = 3"
    by (simp_all add: sample_def)
  have "\<not> lamp sample 1"
    by (simp add: lamp_def sample_def get_port_status_def)
  with light_red_amber_effect [OF b d] show ?thesis
    unfolding r by simp
qed

subsection \<open>The exception handler\<close>

lemma relay_blink: "\<not> get_port_status b a \<Longrightarrow> relay_off (relay_on b a) a = b"
  by (auto simp: relay_off_def relay_on_def get_port_status_def fun_eq_iff)

lemma load_name_modem: "load_name ''modem'' = Inl (NameError ''modem'')"
  by (simp add: load_name_def handler_locals_def module_globals_def)

lemma read_signal_strength_fails: "read_signal_strength s = Inl (NameError ''modem'')"
  by (simp add: read_signal_strength_def load_name_modem)

text \<open>With the board attached the handler returns, and it changes the console only: the
  amber relay blinks only when it is off, and is off again afterwards.\<close>

lemma exception_handler_attached:
  assumes "relay_board s = Some b"
  shows "exception_handler s e task =
     Inr (s\<lparr>console := console s @
            (''Encountered a '' @ class_name e @ '' while '' @ task @ ''.'') #
            (if log s then [''Unable to get signal strength.''] else [])\<rparr>)"
proof (cases "get_port_status b (amber_relay s)")
  case True
  with assms show ?thesis
    by (simp add: exception_handler_def print_def read_signal_strength_fails)
next
  case False
  have "s\<lparr>console := c, relay_board := Some b\<rparr> = s\<lparr>console := c\<rparr>" for c
    using assms by simp
  with False assms show ?thesis
    by (simp add: exception_handler_def print_def read_signal_strength_fails relay_blink)
qed

lemma exception_handler_unattached:
  assumes "relay_board s = None"
  shows "exception_handler s e task =
     Inl (AttributeError ''relay_board'',
          s\<lparr>console := console s @
            [''Encountered a '' @ class_name e @ '' while '' @ task @ ''.'']\<rparr>)"
  using assms by (simp add: exception_handler_def print_def)

text \<open>
  C10 fails on the code for the one call the handler receives before the relay board is
  attached: when the first attempt to connect the modem raises, line 76 calls the handler
  to log the fault and try again, line 152 reads \<open>self.relay_board\<close>, which line 79 has not
  assigned yet, and the handler itself raises \<open>AttributeError\<close>. With logging enabled,
  neither a signal strength nor the fallback message is printed, and the constructor ends
  with the \<open>AttributeError\<close> instead of trying again.
\<close>

theorem exception_handler_raises_during_construction:
  "map_option (\<lambda>r. (raised r, console (state_of r)))
     (WaterAlarm [''+4915100000002''] ''+4915100000001'' ''Water?'' ''1'' ''0'' 32 19200
        1 2 3 10 4 True (\<lambda>k. Some (Fault ''TimeoutException'')) (\<lambda>n. None) 80 (\<lambda>n. False)) =
   Some (Some (AttributeError ''relay_board''),
         [''Connecting modem'',
          ''Encountered a TimeoutException while connecting the modem. Trying again.''])"
  by (simp add: WaterAlarm_def connect_loop.simps print_def exception_handler_unattached
      raised_def state_of_def)

text \<open>
  Everywhere else the handler does what is said of it: the name \<open>modem\<close> is bound nowhere,
  so the read of line 158 raises \<open>NameError\<close> for every object; and for every exception
  handled with logging enabled on an object whose relay board is attached (every call
  after construction), the handler prints its first line and then the fallback message,
  never a signal strength, and changes nothing else.
\<close>

theorem exception_handler_signal_never_read:
  assumes "relay_board s = Some b" and "log s"
  shows "read_signal_strength s = Inl (NameError ''modem'') \<and>
     exception_handler s e task =
       Inr (s\<lparr>console := console s @
              [''Encountered a '' @ class_name e @ '' while '' @ task @ ''.'',
               ''Unable to get signal strength.'']\<rparr>)"
  using assms by (simp add: exception_handler_attached read_signal_strength_fails)

theorem exception_handler_signal_never_read_witness:
  "exception_handler sample (Fault ''TimeoutException'') ''checking for new messages'' =
     Inr (sample\<lparr>console :=
            [''Encountered a TimeoutException while checking for new messages.'',
             ''Unable to get signal strength.'']\<rparr>)"
proof -
  have b: "relay_board sample = Some (\<lambda>n. False)" and l: "log sample"
    by (simp_all add: sample_def)
  have c: "console sample = []"
    by (simp add: sample_def)
  from exception_handler_signal_never_read [OF b l] show ?thesis
    by (simp add: c)
qed

subsection \<open>The constructor's validation\<close>

text \<open>
  C2 fails on the code: lines 63 and 65 both test \<open>disconnect_time\<close>, so \<open>water_time\<close> is
  never checked. With \<open>disconnect_time = 10\<close> and \<open>water_time = 5\<close> the constructor returns
  an object, threshold 5 included.
\<close>

theorem WaterAlarm_accepts_odd_water_time:
  "map_option (\<lambda>r. (raised r, water_time (state_of r), disconnect_time (state_of r)))
     (WaterAlarm [''+4915100000002''] ''+4915100000001'' ''Water?'' ''1'' ''0'' 32 19200
        1 2 3 10 5 True (\<lambda>k. None) (\<lambda>n. None) 80 (\<lambda>n. False)) =
   Some (None, 5, 10)"
  by (simp add: WaterAlarm_def connect_loop.simps print_def on_board_def and_then_def
      raised_def state_of_def)

subsection \<open>Messages from other senders\<close>

lemma parse_message_stranger:
  "sms_number m \<noteq> phone_number s \<Longrightarrow>
   parse_message s m = Inr (print (''Unknown number '' @ sms_number m) s)"
  by (simp add: parse_message_def)

lemma parse_all_strangers:
  "\<forall>m \<in> set ms. sms_number m \<noteq> phone_number s \<Longrightarrow>
   parse_all s ms =
     Inr (s\<lparr>console := console s @ map (\<lambda>m. ''Unknown number '' @ sms_number m) ms\<rparr>)"
proof (induction ms arbitrary: s)
  case Nil
  show ?case by simp
next
  case (Cons m ms)
  let ?s = "print (''Unknown number '' @ sms_number m) s"
  have "parse_message s m = Inr ?s"
    using Cons.prems by (simp add: parse_message_stranger)
  moreover have "\<forall>m \<in> set ms. sms_number m \<noteq> phone_number ?s"
    using Cons.prems by (simp add: print_def)
  ultimately show ?case
    using Cons.IH [of ?s] by (simp add: and_then_def print_def)
qed

text \<open>
  C6: a message whose sender is not the configured number makes \<open>parse_message\<close> return
  with \<open>missing_loops\<close>, \<open>missing_responses\<close>, \<open>times_water_detected\<close>, \<open>awaiting_message\<close> and
  \<open>water\<close> as they were; the only change to the object is the line printed.
\<close>

theorem parse_message_unknown_sender:
  assumes "sms_number m \<noteq> phone_number s"
  shows "raised (parse_message s m) = None \<and>
     missing_loops (state_of (parse_message s m)) = missing_loops s \<and>
     missing_responses (state_of (parse_message s m)) = missing_responses s \<and>
     times_water_detected (state_of (parse_message s m)) = times_water_detected s \<and>
     awaiting_message (state_of (parse_message s m)) = awaiting_message s \<and>
     water (state_of (parse_message s m)) = water s \<and>
     state_of (parse_message s m) =
       s\<lparr>console := console s @ [''Unknown number '' @ sms_number m]\<rparr>"
  using assms by (simp add: parse_message_stranger print_def raised_def state_of_def)

theorem parse_message_unknown_sender_witness:
  "state_of (parse_message sample (Sms ''+4917000000000'' ''1'')) =
     sample\<lparr>console := [''Unknown number +4917000000000'']\<rparr> \<and>
   raised (parse_message sample (Sms ''+4917000000000'' ''1'')) = None"
proof -
  have "sms_number (Sms ''+4917000000000'' ''1'') \<noteq> phone_number sample"
    by (simp add: sample_def)
  from parse_message_unknown_sender [OF this] show ?thesis
    by (simp add: sample_def)
qed

text \<open>
  C9: when the inbox holds only messages from other senders, \<open>check_for_answer\<close> returns
  and leaves \<open>awaiting_message\<close> as it was; \<open>missing_loops\<close> grows by one exactly when the
  inbox was empty while a reply was awaited, so one message from another sender keeps the
  tick from being counted.
\<close>

theorem check_for_answer_unknown_senders:
  assumes "\<forall>m \<in> set ms. sms_number m \<noteq> phone_number s"
  shows "raised (check_for_answer s (Inr ms)) = None \<and>
     missing_loops (state_of (check_for_answer s (Inr ms))) =
       (if ms = [] \<and> awaiting_message s then missing_loops s + 1 else missing_loops s) \<and>
     awaiting_message (state_of (check_for_answer s (Inr ms))) = awaiting_message s"
proof -
  let ?s1 = "if length ms = 0 \<and> awaiting_message s
             then s\<lparr>missing_loops := missing_loops s + 1\<rparr> else s"
  have "\<forall>m \<in> set ms. sms_number m \<noteq> phone_number ?s1"
    using assms by simp
  from parse_all_strangers [OF this] show ?thesis
    by (simp add: check_for_answer_def raised_def state_of_def)
qed

theorem check_for_answer_unknown_senders_witness:
  "awaiting_message (sample\<lparr>awaiting_message := True, missing_loops := 3\<rparr>) \<and>
   missing_loops (state_of (check_for_answer
       (sample\<lparr>awaiting_message := True, missing_loops := 3\<rparr>)
       (Inr [Sms ''+4917000000000'' ''1'']))) = 3 \<and>
   missing_loops (state_of (check_for_answer
       (sample\<lparr>awaiting_message := True, missing_loops := 3\<rparr>) (Inr []))) = 4"
proof -
  let ?s = "sample\<lparr>awaiting_message := True, missing_loops := 3\<rparr>"
  have a: "\<forall>m \<in> set [Sms ''+4917000000000'' ''1'']. sms_number m \<noteq> phone_number ?s"
    by (simp add: sample_def)
  have b: "\<forall>m \<in> set []. sms_number m \<noteq> phone_number ?s"
    by simp
  from check_for_answer_unknown_senders [OF a] check_for_answer_unknown_senders [OF b]
  show ?thesis by simp
qed

subsection \<open>Sending with an attached board and a polite modem\<close>

lemma polite_simps [simp]:
  "polite (s\<lparr>console := c\<rparr>) = polite s"
  "polite (s\<lparr>sms_calls := x\<rparr>) = polite s"
  "polite (s\<lparr>relay_board := r\<rparr>) = polite s"
  "polite (s\<lparr>water := w\<rparr>) = polite s"
  "polite (s\<lparr>times_water_detected := t\<rparr>) = polite s"
  "polite (s\<lparr>missing_loops := l\<rparr>) = polite s"
  "polite (s\<lparr>missing_responses := m\<rparr>) = polite s"
  "polite (s\<lparr>awaiting_message := a\<rparr>) = polite s"
  by (simp_all add: polite_def)

lemma alert_text_simps [simp]:
  "alert_text (s\<lparr>console := c\<rparr>) ev = alert_text s ev"
  "alert_text (s\<lparr>sms_calls := x\<rparr>) ev = alert_text s ev"
  "alert_text (s\<lparr>relay_board := r\<rparr>) ev = alert_text s ev"
  by (simp_all add: alert_text_def water_text_def disconnect_text_def)

lemma send_message_ready:
  assumes "relay_board s = Some b" and "polite s"
  shows "\<exists>c. send_message s n m =
           Inr (s\<lparr>sms_calls := sms_calls s @ [(n, m)], console := c\<rparr>)"
proof (cases "send_faults s (length (sms_calls s))")
  case None
  then have "send_message s n m = Inr (s\<lparr>sms_calls := sms_calls s @ [(n, m)], console := console s\<rparr>)"
    by (simp add: send_message_def)
  then show ?thesis ..
next
  case (Some e)
  with assms have "is_Exception e"
    by (simp add: polite_def)
  with Some assms show ?thesis
    by (simp add: send_message_def exception_handler_attached del: append.simps) blast
qed

lemma alert_step:
  "alert_loop s event (n # ns) =
     and_then (case alert_text s event of
                 Some txt \<Rightarrow> send_message s n txt
               | None \<Rightarrow> Inl (ValueError (''Unknown event '' @ event), s))
              (\<lambda>s'. alert_loop s' event ns)"
  by (simp add: alert_text_def)

lemma alert_loop_ready:
  assumes "relay_board s = Some b" and "polite s" and "alert_text s event = Some txt"
  shows "\<exists>c. alert_loop s event ns =
           Inr (s\<lparr>sms_calls := sms_calls s @ map (\<lambda>n. (n, txt)) ns, console := c\<rparr>)"
  using assms
proof (induction ns arbitrary: s)
  case Nil
  have "alert_loop s event [] = Inr (s\<lparr>sms_calls := sms_calls s @ map (\<lambda>n. (n, txt)) [], console := console s\<rparr>)"
    by simp
  then show ?case ..
next
  case (Cons n ns)
  from send_message_ready [OF Cons.prems(1,2)] obtain c where
    c: "send_message s n txt = Inr (s\<lparr>sms_calls := sms_calls s @ [(n, txt)], console := c\<rparr>)"
    by blast
  let ?s = "s\<lparr>sms_calls := sms_calls s @ [(n, txt)], console := c\<rparr>"
  have "\<exists>c'. alert_loop ?s event ns =
           Inr (?s\<lparr>sms_calls := sms_calls ?s @ map (\<lambda>n. (n, txt)) ns, console := c'\<rparr>)"
    using Cons.prems by (intro Cons.IH) simp_all
  then obtain c' where "alert_loop ?s event ns =
           Inr (?s\<lparr>sms_calls := sms_calls ?s @ map (\<lambda>n. (n, txt)) ns, console := c'\<rparr>)"
    by blast
  then have "alert_loop s event (n # ns) =
     Inr (s\<lparr>sms_calls := sms_calls s @ map (\<lambda>n. (n, txt)) (n # ns), console := c'\<rparr>)"
    unfolding alert_step using c Cons.prems(3) by (simp add: and_then_def)
  then show ?case ..
qed

lemma alert_humans_ready:
  assumes "relay_board s = Some b" and "polite s" and "alert_text s event = Some txt"
  shows "\<exists>c. alert_humans s event =
           Inr (s\<lparr>sms_calls := sms_calls s @ map (\<lambda>n. (n, txt)) (alert_numbers s),
                  console := c\<rparr>)"
  unfolding alert_humans_def using assms by (rule alert_loop_ready)

subsection \<open>Water-positive replies\<close>

lemma update_status_below:
  assumes "0 < times_water_detected s"
    and "2 * times_water_detected s < water_time s"
  shows "\<exists>c. update_status s = Inr (s\<lparr>console := c\<rparr>)"
proof -
  have "update_status s = Inr (s\<lparr>console := console s @
          [''Water has been detected for '' @
           format_int (times_water_detected s * 2) @
           ''m. Will alert others at '' @ format_int (water_time s) @ ''m.'']\<rparr>)"
    using assms by (simp add: update_status_def lt_half_def print_def)
  then show ?thesis ..
qed

lemma update_status_reached_unfold:
  assumes "0 < times_water_detected s"
    and "water_time s \<le> 2 * times_water_detected s"
  shows "update_status s = and_then (light s ''red'') (\<lambda>s1.
        and_then (alert_humans s1 ''water'') (\<lambda>s2.
        let s3 = s2\<lparr>water := True\<rparr> in
        Inr (print (''Water has been detected for the past '' @
                    format_int (times_water_detected s3 * 2) @
                    ''m, turning red light on.'') s3)))"
    using assms by (simp add: update_status_def lt_half_def ge_half_def)

lemma alert_humans_water:
  assumes "relay_board s = Some b" and "polite s"
  shows "\<exists>c. alert_humans (s\<lparr>relay_board := Some r\<rparr>) ''water'' =
           Inr (s\<lparr>relay_board := Some r,
                  sms_calls := sms_calls s @ map (\<lambda>n. (n, water_text s)) (alert_numbers s),
                  console := c\<rparr>)"
proof -
  let ?s1 = "s\<lparr>relay_board := Some r\<rparr>"
  have 1: "relay_board ?s1 = Some r" by simp
  have 2: "polite ?s1" using assms(2) by simp
  have 3: "alert_text ?s1 ''water'' = Some (water_text s)"
    by (simp add: alert_text_def water_text_def)
  from alert_humans_ready [OF 1 2 3] show ?thesis by simp
qed

lemma update_status_reached:
  assumes "relay_board s = Some b" and "polite s"
    and "0 < times_water_detected s"
    and "water_time s \<le> 2 * times_water_detected s"
  shows "\<exists>c. update_status s =
     Inr (s\<lparr>relay_board :=
              Some (relay_on (relay_off (relay_off b (amber_relay s)) (green_relay s))
                             (red_relay s)),
            sms_calls := sms_calls s @ map (\<lambda>n. (n, water_text s)) (alert_numbers s),
            water := True, console := c\<rparr>)"
proof -
  let ?r = "relay_on (relay_off (relay_off b (amber_relay s)) (green_relay s)) (red_relay s)"
  from alert_humans_water [OF assms(1,2), of ?r] obtain c where
    c: "alert_humans (s\<lparr>relay_board := Some ?r\<rparr>) ''water'' =
           Inr (s\<lparr>relay_board := Some ?r,
                  sms_calls := sms_calls s @ map (\<lambda>n. (n, water_text s)) (alert_numbers s),
                  console := c\<rparr>)"
    by blast
  define c' where "c' = c @ [''Water has been detected for the past '' @
                    format_int (times_water_detected s * 2) @
                    ''m, turning red light on.'']"
  have "update_status s =
     Inr (s\<lparr>relay_board := Some ?r,
            sms_calls := sms_calls s @ map (\<lambda>n. (n, water_text s)) (alert_numbers s),
            water := True, console := c'\<rparr>)"
    unfolding update_status_reached_unfold [OF assms(3,4)] light_red_Some [OF assms(1)] and_then_def sum.case c c'_def
    by (simp add: print_def)
  then show ?thesis ..
qed

lemma restored_step:
  assumes "relay_board s = Some b" and "polite s"
  shows "\<exists>c. (if ge_half (missing_responses s) (disconnect_time s)
              then alert_humans s ''restored'' else Inr s) =
           Inr (s\<lparr>sms_calls := sms_calls s @ restored_alerts s, console := c\<rparr>)"
proof (cases "ge_half (missing_responses s) (disconnect_time s)")
  case True
  have "alert_text s ''restored'' = Some restored_text"
    by (simp add: alert_text_def)
  from alert_humans_ready [OF assms this] True show ?thesis
    by (simp add: restored_alerts_def)
next
  case False
  then have "(if ge_half (missing_responses s) (disconnect_time s)
              then alert_humans s ''restored'' else Inr s) =
           Inr (s\<lparr>sms_calls := sms_calls s @ restored_alerts s, console := console s\<rparr>)"
    by (simp add: restored_alerts_def)
  then show ?thesis ..
qed

lemma parse_message_water:
  assumes "relay_board s = Some b" and "polite s"
    and "sms_number m = phone_number s" and "sms_text m = water_message s"
  shows "\<exists>c. parse_message s m =
           update_status (s\<lparr>sms_calls := sms_calls s @ restored_alerts s, console := c,
                             missing_loops := 0, missing_responses := 0,
                             awaiting_message := False,
                             times_water_detected := times_water_detected s + 1\<rparr>)"
proof -
  from restored_step [OF assms(1,2)] obtain c where
    c: "(if ge_half (missing_responses s) (disconnect_time s)
              then alert_humans s ''restored'' else Inr s) =
           Inr (s\<lparr>sms_calls := sms_calls s @ restored_alerts s, console := c\<rparr>)"
    by blast
  have "parse_message s m =
           update_status (s\<lparr>sms_calls := sms_calls s @ restored_alerts s, console := c,
                             missing_loops := 0, missing_responses := 0,
                             awaiting_message := False,
                             times_water_detected := times_water_detected s + 1\<rparr>)"
    unfolding parse_message_def c and_then_def using assms(3,4) by simp
  then show ?thesis ..
qed

lemma parse_message_water_below:
  assumes "relay_board s = Some b" and "polite s"
    and "sms_number m = phone_number s" and "sms_text m = water_message s"
    and "0 \<le> times_water_detected s"
    and "2 * (times_water_detected s + 1) < water_time s"
  shows "\<exists>c. parse_message s m =
           Inr (s\<lparr>sms_calls := sms_calls s @ restored_alerts s, console := c,
                  missing_loops := 0, missing_responses := 0,
                  awaiting_message := False,
                  times_water_detected := times_water_detected s + 1\<rparr>)"
proof -
  from parse_message_water [OF assms(1-4)] obtain c where
    c: "parse_message s m =
           update_status (s\<lparr>sms_calls := sms_calls s @ restored_alerts s, console := c,
                             missing_loops := 0, missing_responses := 0,
                             awaiting_message := False,
                             times_water_detected := times_water_detected s + 1\<rparr>)"
    by blast
  let ?s = "s\<lparr>sms_calls := sms_calls s @ restored_alerts s, console := c,
                             missing_loops := 0, missing_responses := 0,
                             awaiting_message := False,
                             times_water_detected := times_water_detected s + 1\<rparr>"
  have "0 < times_water_detected ?s" "2 * times_water_detected ?s < water_time ?s"
    using assms(5,6) by simp_all
  from update_status_below [OF this] obtain c' where
    "update_status ?s = Inr (?s\<lparr>console := c'\<rparr>)"
    by blast
  moreover have "?s\<lparr>console := c'\<rparr> =
     s\<lparr>sms_calls := sms_calls s @ restored_alerts s, console := c',
                  missing_loops := 0, missing_responses := 0,
                  awaiting_message := False,
                  times_water_detected := times_water_detected s + 1\<rparr>"
    by simp
  ultimately have "parse_message s m =
     Inr (s\<lparr>sms_calls := sms_calls s @ restored_alerts s, console := c',
                  missing_loops := 0, missing_responses := 0,
                  awaiting_message := False,
                  times_water_detected := times_water_detected s + 1\<rparr>)"
    using c by simp
  then show ?thesis ..
qed

lemma parse_message_water_reached:
  assumes "relay_board s = Some b" and "polite s"
    and "sms_number m = phone_number s" and "sms_text m = water_message s"
    and "0 \<le> times_water_detected s"
    and "water_time s \<le> 2 * (times_water_detected s + 1)"
  shows "\<exists>c. parse_message s m =
           Inr (s\<lparr>relay_board :=
                    Some (relay_on (relay_off (relay_off b (amber_relay s)) (green_relay s))
                                   (red_relay s)),
                  missing_responses := 0, water := True,
                  times_water_detected := times_water_detected s + 1,
                  missing_loops := 0, awaiting_message := False,
                  sms_calls := sms_calls s @ restored_alerts s @
                    map (\<lambda>n. (n, water_text (s\<lparr>times_water_detected :=
                                                  times_water_detected s + 1\<rparr>)))
                        (alert_numbers s),
                  console := c\<rparr>)"
proof -
  from parse_message_water [OF assms(1-4)] obtain c where
    c: "parse_message s m =
           update_status (s\<lparr>sms_calls := sms_calls s @ restored_alerts s, console := c,
                             missing_loops := 0, missing_responses := 0,
                             awaiting_message := False,
                             times_water_detected := times_water_detected s + 1\<rparr>)"
    by blast
  let ?s = "s\<lparr>sms_calls := sms_calls s @ restored_alerts s, console := c,
                             missing_loops := 0, missing_responses := 0,
                             awaiting_message := False,
                             times_water_detected := times_water_detected s + 1\<rparr>"
  let ?r = "relay_on (relay_off (relay_off b (amber_relay s)) (green_relay s)) (red_relay s)"
  have "relay_board ?s = Some b" "polite ?s"
    "0 < times_water_detected ?s" "water_time ?s \<le> 2 * times_water_detected ?s"
    using assms(1,2,5,6) by simp_all
  from update_status_reached [OF this] obtain c' where
    "update_status ?s =
       Inr (?s\<lparr>relay_board :=
              Some (relay_on (relay_off (relay_off b (amber_relay ?s)) (green_relay ?s))
                             (red_relay ?s)),
            sms_calls := sms_calls ?s @ map (\<lambda>n. (n, water_text ?s)) (alert_numbers ?s),
            water := True, console := c'\<rparr>)"
    by blast
  moreover have "water_text ?s =
      water_text (s\<lparr>times_water_detected := times_water_detected s + 1\<rparr>)"
    by (simp add: water_text_def)
  ultimately have "parse_message s m =
     Inr (s\<lparr>relay_board := Some ?r,
                  missing_responses := 0, water := True,
                  times_water_detected := times_water_detected s + 1,
                  missing_loops := 0, awaiting_message := False,
                  sms_calls := sms_calls s @ restored_alerts s @
                    map (\<lambda>n. (n, water_text (s\<lparr>times_water_detected :=
                                                  times_water_detected s + 1\<rparr>)))
                        (alert_numbers s),
                  console := c'\<rparr>)"
    using c by simp
  then show ?thesis ..
qed

subsection \<open>The water alert\<close>

lemma water_text_prefix:
  "water_text s = water_prefix @ format_int (times_water_detected s * 2) @ ''m!''"
  by (simp add: water_text_def water_prefix_def)

lemma is_water_alert_water [simp]: "is_water_alert (n, water_prefix @ x)"
  by (simp add: is_water_alert_def)

lemma is_water_alert_restored [simp]: "\<not> is_water_alert (n, restored_text)"
  by (simp add: is_water_alert_def restored_text_def water_prefix_def)

lemma filter_restored_alerts [simp]: "filter is_water_alert (restored_alerts s) = []"
  by (simp add: restored_alerts_def filter_map o_def)

lemma filter_water_alerts [simp]:
  "filter is_water_alert (map (\<lambda>n. (n, water_prefix @ x)) ns) = map (\<lambda>n. (n, water_prefix @ x)) ns"
  by (simp add: filter_map o_def)

lemma parse_all_append:
  "parse_all s (xs @ ys) = and_then (parse_all s xs) (\<lambda>s'. parse_all s' ys)"
  by (induction xs arbitrary: s) (auto simp: and_then_def split: sum.splits)

lemma replies_below:
  assumes "relay_board s = Some b" and "polite s"
    and "times_water_detected s = 0"
    and "2 * int k < water_time s"
  shows "\<exists>R c l r a.
     parse_all s (replicate k (Sms (phone_number s) (water_message s))) =
       Inr (s\<lparr>sms_calls := sms_calls s @ R, console := c, missing_loops := l,
              missing_responses := r, awaiting_message := a,
              times_water_detected := int k\<rparr>) \<and>
     filter is_water_alert R = []"
  using assms(4)
proof (induction k)
  case 0
  have "parse_all s (replicate 0 (Sms (phone_number s) (water_message s))) =
       Inr (s\<lparr>sms_calls := sms_calls s @ [], console := console s,
              missing_loops := missing_loops s,
              missing_responses := missing_responses s,
              awaiting_message := awaiting_message s,
              times_water_detected := int 0\<rparr>)"
    using assms(3) by simp
  moreover have "filter is_water_alert [] = []" by simp
  ultimately show ?case by blast
next
  case (Suc k)
  let ?m = "Sms (phone_number s) (water_message s)"
  have snoc: "replicate (Suc k) ?m = replicate k ?m @ [?m]"
    by (simp add: replicate_append_same)
  from Suc obtain R c l r a where
    k: "parse_all s (replicate k ?m) =
       Inr (s\<lparr>sms_calls := sms_calls s @ R, console := c, missing_loops := l,
              missing_responses := r, awaiting_message := a,
              times_water_detected := int k\<rparr>)"
    and R: "filter is_water_alert R = []"
    by fastforce
  let ?s = "s\<lparr>sms_calls := sms_calls s @ R, console := c, missing_loops := l,
              missing_responses := r, awaiting_message := a,
              times_water_detected := int k\<rparr>"
  have "relay_board ?s = Some b" "polite ?s"
    "sms_number ?m = phone_number ?s" "sms_text ?m = water_message ?s"
    "0 \<le> times_water_detected ?s" "2 * (times_water_detected ?s + 1) < water_time ?s"
    using assms(1,2) Suc.prems by simp_all
  from parse_message_water_below [OF this] obtain c' where
    "parse_message ?s ?m =
       Inr (?s\<lparr>sms_calls := sms_calls ?s @ restored_alerts ?s, console := c',
                  missing_loops := 0, missing_responses := 0,
                  awaiting_message := False,
                  times_water_detected := times_water_detected ?s + 1\<rparr>)"
    by blast
  moreover define R' where "R' = R @ restored_alerts ?s"
  moreover have "?s\<lparr>sms_calls := sms_calls ?s @ restored_alerts ?s, console := c',
                  missing_loops := 0, missing_responses := 0,
                  awaiting_message := False,
                  times_water_detected := times_water_detected ?s + 1\<rparr> =
      s\<lparr>sms_calls := sms_calls s @ R', console := c', missing_loops := 0,
              missing_responses := 0, awaiting_message := False,
              times_water_detected := int (Suc k)\<rparr>"
    by (simp add: R'_def)
  ultimately have "parse_all s (replicate (Suc k) ?m) =
      Inr (s\<lparr>sms_calls := sms_calls s @ R', console := c', missing_loops := 0,
              missing_responses := 0, awaiting_message := False,
              times_water_detected := int (Suc k)\<rparr>)"
    using k unfolding snoc parse_all_append by (simp add: and_then_def)
  moreover have "filter is_water_alert R' = []"
    using R by (simp add: R'_def)
  ultimately show ?case by blast
qed

text \<open>
  C1, amended: every water-positive reply from the configured number that leaves
  \<open>times_water_detected\<close> at or above half the water threshold sends one water alert to every
  operator, whether the threshold is crossed by this reply or was crossed before: the
  reply returns, the streak grows by one, \<open>water\<close> is set, and the water alerts sent so far
  grow by one per operator, with the text for the new streak.
\<close>

theorem water_alert_every_confirming_reply:
  assumes "relay_board s = Some b" and "polite s"
    and "sms_number m = phone_number s" and "sms_text m = water_message s"
    and "0 \<le> times_water_detected s"
    and "water_time s \<le> 2 * (times_water_detected s + 1)"
  shows "raised (parse_message s m) = None \<and>
     times_water_detected (state_of (parse_message s m)) = times_water_detected s + 1 \<and>
     water (state_of (parse_message s m)) \<and>
     water_alerts (state_of (parse_message s m)) =
       water_alerts s @
       map (\<lambda>n. (n, water_prefix @ format_int ((times_water_detected s + 1) * 2) @ ''m!''))
           (alert_numbers s)"
proof -
  from parse_message_water_reached [OF assms] obtain c where
    "parse_message s m =
           Inr (s\<lparr>relay_board :=
                    Some (relay_on (relay_off (relay_off b (amber_relay s)) (green_relay s))
                                   (red_relay s)),
                  missing_responses := 0, water := True,
                  times_water_detected := times_water_detected s + 1,
                  missing_loops := 0, awaiting_message := False,
                  sms_calls := sms_calls s @ restored_alerts s @
                    map (\<lambda>n. (n, water_text (s\<lparr>times_water_detected :=
                                                  times_water_detected s + 1\<rparr>)))
                        (alert_numbers s),
                  console := c\<rparr>)"
    by blast
  then show ?thesis
    by (simp add: raised_def state_of_def water_alerts_def water_text_prefix)
qed

text \<open>
  C5: for an even water threshold \<open>W \<ge> 2\<close>, starting from a streak of 0 on an object with an
  attached board, three distinct relays and a polite modem: \<open>W/2 - 1\<close> consecutive
  water-positive replies from the configured number leave the relay board and \<open>water\<close> as
  they were and send no water alert; \<open>W/2\<close> such replies leave the red relay on, the green
  relay off and \<open>water\<close> set, and have sent exactly one water alert per operator, with the
  text for \<open>W\<close> minutes.
\<close>

theorem water_alert_at_threshold:
  assumes "relay_board s = Some b" and "polite s"
    and "distinct [red_relay s, amber_relay s, green_relay s]"
    and "times_water_detected s = 0"
    and "even (water_time s)" and "2 \<le> water_time s"
  shows
    "raised (parse_all s (replicate (nat (water_time s div 2) - 1)
                            (Sms (phone_number s) (water_message s)))) = None \<and>
     relay_board (state_of (parse_all s (replicate (nat (water_time s div 2) - 1)
                            (Sms (phone_number s) (water_message s))))) = relay_board s \<and>
     water (state_of (parse_all s (replicate (nat (water_time s div 2) - 1)
                            (Sms (phone_number s) (water_message s))))) = water s \<and>
     water_alerts (state_of (parse_all s (replicate (nat (water_time s div 2) - 1)
                            (Sms (phone_number s) (water_message s))))) = water_alerts s \<and>
     raised (parse_all s (replicate (nat (water_time s div 2))
                            (Sms (phone_number s) (water_message s)))) = None \<and>
     lamp (state_of (parse_all s (replicate (nat (water_time s div 2))
                            (Sms (phone_number s) (water_message s))))) (red_relay s) \<and>
     \<not> lamp (state_of (parse_all s (replicate (nat (water_time s div 2))
                            (Sms (phone_number s) (water_message s))))) (green_relay s) \<and>
     water (state_of (parse_all s (replicate (nat (water_time s div 2))
                            (Sms (phone_number s) (water_message s))))) \<and>
     water_alerts (state_of (parse_all s (replicate (nat (water_time s div 2))
                            (Sms (phone_number s) (water_message s))))) =
       water_alerts s @
       map (\<lambda>n. (n, water_prefix @ format_int (water_time s) @ ''m!'')) (alert_numbers s)"
proof -
  let ?m = "Sms (phone_number s) (water_message s)"
  define k where "k = nat (water_time s div 2) - 1"
  have k: "water_time s = 2 * (int k + 1)" and Suc: "nat (water_time s div 2) = Suc k"
    using assms(5,6) by (auto simp: k_def elim!: evenE)
  have "2 * int k < water_time s"
    using k by simp
  from replies_below [OF assms(1,2,4) this] obtain R c l r a where
    below: "parse_all s (replicate k ?m) =
       Inr (s\<lparr>sms_calls := sms_calls s @ R, console := c, missing_loops := l,
              missing_responses := r, awaiting_message := a,
              times_water_detected := int k\<rparr>)"
    and R: "filter is_water_alert R = []"
    by blast
  let ?s = "s\<lparr>sms_calls := sms_calls s @ R, console := c, missing_loops := l,
              missing_responses := r, awaiting_message := a,
              times_water_detected := int k\<rparr>"
  have "relay_board ?s = Some b" "polite ?s"
    "sms_number ?m = phone_number ?s" "sms_text ?m = water_message ?s"
    "0 \<le> times_water_detected ?s" "water_time ?s \<le> 2 * (times_water_detected ?s + 1)"
    using assms(1,2) k by simp_all
  from parse_message_water_reached [OF this] obtain c' where
    last: "parse_message ?s ?m =
           Inr (?s\<lparr>relay_board :=
                    Some (relay_on (relay_off (relay_off b (amber_relay ?s)) (green_relay ?s))
                                   (red_relay ?s)),
                  missing_responses := 0, water := True,
                  times_water_detected := times_water_detected ?s + 1,
                  missing_loops := 0, awaiting_message := False,
                  sms_calls := sms_calls ?s @ restored_alerts ?s @
                    map (\<lambda>n. (n, water_text (?s\<lparr>times_water_detected :=
                                                  times_water_detected ?s + 1\<rparr>)))
                        (alert_numbers ?s),
                  console := c'\<rparr>)"
    by blast
  have snoc: "replicate (Suc k) ?m = replicate k ?m @ [?m]"
    by (simp add: replicate_append_same)
  have final: "parse_all s (replicate (Suc k) ?m) = parse_message ?s ?m"
    unfolding snoc parse_all_append below
    by (simp add: and_then_def split: sum.splits)
  have wtext: "water_text (?s\<lparr>times_water_detected := times_water_detected ?s + 1\<rparr>) =
      water_prefix @ format_int (water_time s) @ ''m!''"
    using k by (simp add: water_text_prefix algebra_simps)
  have 1: "raised (parse_all s (replicate k ?m)) = None"
    and 2: "relay_board (state_of (parse_all s (replicate k ?m))) = relay_board s"
    and 3: "water (state_of (parse_all s (replicate k ?m))) = water s"
    and 4: "water_alerts (state_of (parse_all s (replicate k ?m))) = water_alerts s"
    unfolding below using R by (simp_all add: raised_def state_of_def water_alerts_def)
  have 5: "raised (parse_all s (replicate (Suc k) ?m)) = None"
    and 6: "lamp (state_of (parse_all s (replicate (Suc k) ?m))) (red_relay s)"
    and 7: "\<not> lamp (state_of (parse_all s (replicate (Suc k) ?m))) (green_relay s)"
    and 8: "water (state_of (parse_all s (replicate (Suc k) ?m)))"
    unfolding final last using assms(3)
    by (simp_all add: raised_def state_of_def lamp_def get_port_status_def
        relay_on_def relay_off_def)
  have 9: "water_alerts (state_of (parse_all s (replicate (Suc k) ?m))) =
       water_alerts s @
       map (\<lambda>n. (n, water_prefix @ format_int (water_time s) @ ''m!'')) (alert_numbers s)"
    unfolding final last wtext using R
    by (simp add: state_of_def water_alerts_def)
  have "nat (water_time s div 2) - 1 = k"
    by (simp add: k_def)
  with 1 2 3 4 5 6 7 8 9 show ?thesis
    unfolding Suc by simp
qed

lemma sample_fields:
  "phone_number sample = ''+4915100000001''"
  "water_message sample = ''1''"
  "alert_numbers sample = [''+4915100000002'', ''+4915100000003'']"
  "water_time sample = 4" "disconnect_time sample = 10"
  "red_relay sample = 1" "amber_relay sample = 2" "green_relay sample = 3"
  "relay_board sample = Some (\<lambda>n. False)"
  "times_water_detected sample = 0" "missing_responses sample = 0"
  "sms_calls sample = []" "water sample = False"
  by (simp_all add: sample_def)

lemma polite_sample: "polite sample"
  by (simp add: polite_def sample_def)

theorem water_alert_at_threshold_witness:
  "water_alerts (state_of (parse_all sample [Sms ''+4915100000001'' ''1''])) = [] \<and>
   relay_board (state_of (parse_all sample [Sms ''+4915100000001'' ''1''])) =
     Some (\<lambda>n. False) \<and>
   water_alerts (state_of (parse_all sample
      [Sms ''+4915100000001'' ''1'', Sms ''+4915100000001'' ''1''])) =
     [(''+4915100000002'', ''Water has been detected at XFEL for the past 4m!''),
      (''+4915100000003'', ''Water has been detected at XFEL for the past 4m!'')] \<and>
   lamp (state_of (parse_all sample
      [Sms ''+4915100000001'' ''1'', Sms ''+4915100000001'' ''1''])) 1"
proof -
  have d: "distinct [red_relay sample, amber_relay sample, green_relay sample]"
    by (simp add: sample_fields)
  have e: "even (water_time sample)" "2 \<le> water_time sample"
    by (simp_all add: sample_fields)
  have n: "nat (water_time sample div 2) = Suc (Suc 0)"
    by (simp add: sample_fields)
  have w: "water_alerts sample = []"
    by (simp add: water_alerts_def sample_fields)
  have t: "water_prefix @ format_int (water_time sample) @ ''m!'' =
      ''Water has been detected at XFEL for the past 4m!''"
    by (simp add: water_prefix_def sample_fields format_int_def decimal.simps digit_def)
  from water_alert_at_threshold [OF sample_fields(9) polite_sample d sample_fields(10) e]
  show ?thesis
    unfolding n t w by (simp add: sample_fields)
qed

theorem water_alert_every_confirming_reply_witness:
  "water_alerts (state_of (parse_message
      (sample\<lparr>times_water_detected := 2, water := True\<rparr>) (Sms ''+4915100000001'' ''1''))) =
     [(''+4915100000002'', ''Water has been detected at XFEL for the past 6m!''),
      (''+4915100000003'', ''Water has been detected at XFEL for the past 6m!'')]"
proof -
  let ?s = "sample\<lparr>times_water_detected := 2, water := True\<rparr>"
  let ?m = "Sms ''+4915100000001'' ''1''"
  have a: "relay_board ?s = Some (\<lambda>n. False)" "polite ?s"
    "sms_number ?m = phone_number ?s" "sms_text ?m = water_message ?s"
    "0 \<le> times_water_detected ?s" "water_time ?s \<le> 2 * (times_water_detected ?s + 1)"
    by (simp_all add: sample_fields polite_sample)
  have w: "water_alerts ?s = []"
    by (simp add: water_alerts_def sample_fields)
  have t: "water_prefix @ format_int ((times_water_detected ?s + 1) * 2) @ ''m!'' =
      ''Water has been detected at XFEL for the past 6m!''"
    by (simp add: water_prefix_def format_int_def decimal.simps digit_def)
  from water_alert_every_confirming_reply [OF a] show ?thesis
    unfolding t w by (simp add: sample_fields)
qed

text \<open>
  C1, as stated, fails: with water threshold 4, the second water-positive reply sends the
  water alert to both operators, and the third reply, with no reset in between, sends it
  to both again.
\<close>

theorem water_alert_repeated_counterexample:
  "water_alerts (state_of (parse_all sample
      [Sms ''+4915100000001'' ''1'', Sms ''+4915100000001'' ''1''])) =
     [(''+4915100000002'', ''Water has been detected at XFEL for the past 4m!''),
      (''+4915100000003'', ''Water has been detected at XFEL for the past 4m!'')] \<and>
   water_alerts (state_of (parse_all sample
      [Sms ''+4915100000001'' ''1'', Sms ''+4915100000001'' ''1'',
       Sms ''+4915100000001'' ''1''])) =
     [(''+4915100000002'', ''Water has been detected at XFEL for the past 4m!''),
      (''+4915100000003'', ''Water has been detected at XFEL for the past 4m!''),
      (''+4915100000002'', ''Water has been detected at XFEL for the past 6m!''),
      (''+4915100000003'', ''Water has been detected at XFEL for the past 6m!'')]"
  by code_simp

subsection \<open>What every call leaves alone\<close>

lemma keeps_refl [simp]: "keeps s s"
  by (simp add: keeps_def same_setup_def)

lemma keeps_trans: "keeps s s' \<Longrightarrow> keeps s' s'' \<Longrightarrow> keeps s s''"
  by (simp add: keeps_def same_setup_def)

lemma keeps_updates [simp]:
  "keeps s (s'\<lparr>console := c\<rparr>) = keeps s s'"
  "keeps s (s'\<lparr>sms_calls := x\<rparr>) = keeps s s'"
  "keeps s (s'\<lparr>water := w\<rparr>) = keeps s s'"
  "keeps s (s'\<lparr>times_water_detected := t\<rparr>) = keeps s s'"
  "keeps s (s'\<lparr>missing_responses := m\<rparr>) = keeps s s'"
  "relay_board s \<noteq> None \<Longrightarrow> relay_board s' \<noteq> None \<Longrightarrow>
   keeps s (s'\<lparr>relay_board := Some r\<rparr>) = keeps s s'"
  by (auto simp add: keeps_def same_setup_def)

lemma keeps_from_updates [simp]:
  "keeps (s\<lparr>console := c\<rparr>) s' = keeps s s'"
  "keeps (s\<lparr>sms_calls := x\<rparr>) s' = keeps s s'"
  "keeps (s\<lparr>water := w\<rparr>) s' = keeps s s'"
  "keeps (s\<lparr>times_water_detected := t\<rparr>) s' = keeps s s'"
  "keeps (s\<lparr>missing_responses := m\<rparr>) s' = keeps s s'"
  by (auto simp add: keeps_def same_setup_def)

lemma state_of_simps [simp]:
  "state_of (Inr s) = s" "state_of (Inl (e, s)) = s"
  by (simp_all add: state_of_def)

lemma state_of_and_then:
  assumes "P (state_of r)"
    and "\<And>s'. r = Inr s' \<Longrightarrow> P s' \<Longrightarrow> Q (state_of (f s'))"
    and "\<And>s'. P s' \<Longrightarrow> Q s'"
  shows "Q (state_of (and_then r f))"
  using assms by (cases r) (auto simp: and_then_def)

lemma keeps_and_then:
  assumes "keeps s (state_of r)"
    and "\<And>s'. r = Inr s' \<Longrightarrow> keeps s' (state_of (f s'))"
  shows "keeps s (state_of (and_then r f))"
  using assms by (cases r) (auto simp: and_then_def intro: keeps_trans)

lemma keeps_print [simp]: "keeps s (print l s') = keeps s s'"
  by (simp add: print_def)

lemma keeps_exception_handler: "keeps s (state_of (exception_handler s e task))"
proof (cases "relay_board s")
  case None
  then show ?thesis by (simp add: exception_handler_unattached)
next
  case (Some b)
  then show ?thesis by (simp add: exception_handler_attached)
qed

lemma keeps_send_message: "keeps s (state_of (send_message s n m))"
proof -
  have "keeps (s\<lparr>sms_calls := x\<rparr>) (state_of (exception_handler (s\<lparr>sms_calls := x\<rparr>) e t))" for x e t
    by (rule keeps_exception_handler)
  then show ?thesis
    by (simp add: send_message_def Let_def split: option.split)
qed

lemma keeps_alert_loop: "keeps s (state_of (alert_loop s event ns))"
proof (induction ns arbitrary: s)
  case Nil
  show ?case by simp
next
  case (Cons n ns)
  show ?case
    unfolding alert_step
    by (rule keeps_and_then) (auto simp: keeps_send_message Cons.IH split: option.split)
qed

lemma keeps_alert_humans: "keeps s (state_of (alert_humans s event))"
  by (simp add: alert_humans_def keeps_alert_loop)

lemma keeps_on_board: "keeps s (state_of (on_board s f))"
  by (simp add: on_board_def split: option.split)

lemma keeps_light: "keeps s (state_of (light s l))"
  by (simp add: light_def keeps_on_board)

lemma keeps_update_status: "keeps s (state_of (update_status s))"
  unfolding update_status_def
  by (auto intro!: keeps_and_then simp: keeps_light keeps_alert_humans Let_def)

lemma resets_refl [simp]: "resets s s"
  by (simp add: resets_def same_setup_def)

lemma resets_trans: "resets s s' \<Longrightarrow> resets s' s'' \<Longrightarrow> resets s s''"
  by (auto simp add: resets_def same_setup_def)

lemma keeps_resets: "keeps s s' \<Longrightarrow> resets s s'"
  by (simp add: keeps_def same_setup_def resets_def same_setup_def)

lemma resets_parse_message: "resets s (state_of (parse_message s m))"
proof (cases "sms_number m = phone_number s")
  case False
  then show ?thesis
    by (simp add: parse_message_def print_def resets_def same_setup_def)
next
  case True
  let ?r = "if ge_half (missing_responses s) (disconnect_time s)
            then alert_humans s ''restored'' else Inr s"
  have r: "keeps s (state_of ?r)"
    by (simp add: keeps_alert_humans)
  have u: "resets s (state_of (update_status
             (s'\<lparr>missing_loops := 0, missing_responses := 0, awaiting_message := False,
                 times_water_detected := t\<rparr>)))" if "keeps s s'" for s' t
    using that
      keeps_update_status [of "s'\<lparr>missing_loops := 0, missing_responses := 0,
        awaiting_message := False, times_water_detected := t\<rparr>"]
    by (simp add: keeps_def same_setup_def resets_def same_setup_def)
  have p: "resets s (print l (s'\<lparr>missing_loops := 0, missing_responses := 0,
                 awaiting_message := False\<rparr>))" if "keeps s s'" for s' l
    using that by (simp add: keeps_def same_setup_def resets_def same_setup_def print_def)
  show ?thesis
  proof (cases ?r)
    case (Inl x)
    with r have "keeps s (snd x)"
      by (cases x) simp
    moreover have "parse_message s m = Inl x"
      using True Inl by (simp add: parse_message_def and_then_def)
    ultimately show ?thesis
      by (cases x) (simp add: keeps_resets)
  next
    case (Inr s')
    with r have k: "keeps s s'"
      by simp
    have "parse_message s m =
       (if sms_text m = water_message s' then
          update_status (s'\<lparr>missing_loops := 0, missing_responses := 0,
             awaiting_message := False,
             times_water_detected := times_water_detected s' + 1\<rparr>)
        else if sms_text m = no_water_message s' then
          update_status (s'\<lparr>missing_loops := 0, missing_responses := 0,
             awaiting_message := False, times_water_detected := 0\<rparr>)
        else Inr (print (''Unknown message '' @ apostrophe @ sms_text m @ apostrophe)
                    (s'\<lparr>missing_loops := 0, missing_responses := 0,
                       awaiting_message := False\<rparr>)))"
      using True Inr by (simp add: parse_message_def and_then_def)
    then show ?thesis
      using u [OF k] p [OF k] by simp
  qed
qed

lemma resets_parse_all: "resets s (state_of (parse_all s ms))"
proof (induction ms arbitrary: s)
  case Nil
  show ?case by simp
next
  case (Cons m ms)
  show ?case
  proof (cases "parse_message s m")
    case (Inl x)
    with resets_parse_message [of s m] show ?thesis
      by (cases x) (simp add: and_then_def)
  next
    case (Inr s')
    with resets_parse_message [of s m] have "resets s s'"
      by simp
    from resets_trans [OF this Cons.IH [of s']] Inr show ?thesis
      by (simp add: and_then_def)
  qed
qed

lemma grows_after_count:
  "grows s (state_of (parse_all
     (if length ms = 0 \<and> awaiting_message s'
      then s'\<lparr>missing_loops := missing_loops s' + 1\<rparr> else s') ms))"
  if "keeps s s'"
proof (cases "ms = []")
  case True
  with that show ?thesis
    by (simp add: keeps_def same_setup_def grows_def same_setup_def)
next
  case False
  with that resets_parse_all [of s' ms] show ?thesis
    by (auto simp add: keeps_def same_setup_def resets_def same_setup_def grows_def same_setup_def)
qed

lemma grows_check_for_answer: "grows s (state_of (check_for_answer s l))"
proof (cases l)
  case (Inr ms)
  then show ?thesis
    using grows_after_count [of s s ms] by (simp add: check_for_answer_def)
next
  case (Inl e)
  have h: "keeps s (state_of (exception_handler s e ''checking for new messages''))"
    by (rule keeps_exception_handler)
  show ?thesis
  proof (cases "is_Exception e")
    case False
    with Inl show ?thesis
      by (simp add: check_for_answer_def grows_def same_setup_def)
  next
    case True
    show ?thesis
    proof (cases "exception_handler s e ''checking for new messages''")
      case (Inl x)
      with h True \<open>l = Inl e\<close> show ?thesis
        by (cases x) (simp add: check_for_answer_def grows_def same_setup_def keeps_def same_setup_def)
    next
      case (Inr s')
      with h have "keeps s s'" by simp
      from grows_after_count [OF this, of "[]"] Inr True \<open>l = Inl e\<close> show ?thesis
        by (simp add: check_for_answer_def)
    qed
  qed
qed

lemma keeps_grows: "keeps s s' \<Longrightarrow> grows s s'"
  by (simp add: keeps_def same_setup_def grows_def same_setup_def)

lemma request_status_effect:
  "case request_status s of
     Inl (e, s') \<Rightarrow> keeps s s'
   | Inr s' \<Rightarrow> keeps (s\<lparr>missing_loops := 0, awaiting_message := True\<rparr>) s'"
proof (cases "send_message s (phone_number s) (request_message s)")
  case (Inl x)
  with keeps_send_message [of s "phone_number s" "request_message s"] show ?thesis
    by (cases x) (simp add: request_status_def and_then_def)
next
  case (Inr s')
  with keeps_send_message [of s "phone_number s" "request_message s"] show ?thesis
    by (simp add: request_status_def and_then_def Let_def keeps_def same_setup_def print_def)
qed

lemma tick_body_later:
  assumes "0 < i"
  shows "grows s (state_of (tick_body s i t))"
  using assms grows_check_for_answer [of s "listed t"]
  by (simp add: tick_body_def and_then_def keeps_grows split: option.split)

lemma tick_body_first:
  "(relay_board (state_of (tick_body s 0 t)) = None) = (relay_board s = None) \<and>
   modem_open (state_of (tick_body s 0 t)) = modem_open s \<and>
   (missing_loops (state_of (tick_body s 0 t)) = 0 \<or>
    missing_loops (state_of (tick_body s 0 t)) = 1 \<or>
    raised (tick_body s 0 t) \<noteq> None \<and>
    missing_loops (state_of (tick_body s 0 t)) = missing_loops s)"
proof (cases "request_status s")
  case (Inl x)
  with request_status_effect [of s] show ?thesis
    by (cases x) (simp add: tick_body_def and_then_def keeps_def same_setup_def raised_def)
next
  case (Inr s')
  with request_status_effect [of s]
  have k: "keeps (s\<lparr>missing_loops := 0, awaiting_message := True\<rparr>) s'"
    by simp
  show ?thesis
  proof (cases "sleep_fault t")
    case (Some e)
    with Inr k show ?thesis
      by (simp add: tick_body_def and_then_def keeps_def same_setup_def)
  next
    case None
    with Inr have "tick_body s 0 t = check_for_answer s' (listed t)"
      by (simp add: tick_body_def and_then_def)
    with k grows_check_for_answer [of s' "listed t"] show ?thesis
      by (auto simp: keeps_def same_setup_def grows_def same_setup_def)
  qed
qed

subsection \<open>The range of missing\_loops\<close>

lemma for_range_ticked: "ticked s0 k (for_range s0 ts k)"
proof (induction k)
  case 0
  show ?case by (simp add: ticked_def)
next
  case (Suc k)
  show ?case
  proof (cases "for_range s0 ts k")
    case (Inl x)
    with Suc show ?thesis
      by (cases x) (auto simp: ticked_def and_then_def)
  next
    case (Inr s')
    then have step: "for_range s0 ts (Suc k) = tick_body s' k (ts k)"
      by (simp add: and_then_def)
    show ?thesis
    proof (cases "k = 0")
      case True
      with Suc Inr have s': "(relay_board s' = None) = (relay_board s0 = None)"
        "modem_open s' = modem_open s0" "missing_loops s' = missing_loops s0"
        by (simp_all add: ticked_def)
      from tick_body_first [of s' "ts 0"] s' True show ?thesis
        unfolding step ticked_def
        by (cases "tick_body s' 0 (ts 0)") (auto simp: raised_def)
    next
      case False
      with Suc Inr have s': "(relay_board s' = None) = (relay_board s0 = None)"
        "modem_open s' = modem_open s0" "0 \<le> missing_loops s'" "missing_loops s' \<le> int k"
        by (simp_all add: ticked_def)
      from False have "0 < k" by simp
      from tick_body_later [OF this, of s' "ts k"] s' show ?thesis
        unfolding step ticked_def grows_def same_setup_def
        by (cases "tick_body s' k (ts k)") auto
    qed
  qed
qed

lemma keeps_cycle_end: "keeps s (state_of (cycle_end s))"
proof -
  define s1 where "s1 =
     (if missing_loops s = 12
      then (let s' = s\<lparr>missing_responses := missing_responses s + 1\<rparr> in
            print (''No answer received in the last '' @
                   format_int (missing_responses s' * 2) @ ''m!'') s')
      else s)"
  have s1: "keeps s s1"
    by (simp add: s1_def Let_def)
  have "keeps s (state_of (and_then (light (print l s1) ''amber'')
                             (\<lambda>s2. alert_humans s2 ''disconnect'')))" for l
  proof (rule keeps_and_then)
    have "keeps s (print l s1)"
      using s1 by simp
    from keeps_trans [OF this keeps_light]
    show "keeps s (state_of (light (print l s1) ''amber''))" .
  qed (rule keeps_alert_humans)
  with s1 show ?thesis
    unfolding cycle_end_def s1_def [symmetric] by (simp add: Let_def)
qed

lemma for_range_bounded:
  assumes "bounded s" and "k \<le> 12"
  shows "bounded (state_of (for_range s ts k))"
proof -
  have "bounded (state_of r)" if "ticked s k r" for r
  proof (cases r)
    case (Inl x)
    obtain e s' where x: "x = (e, s')"
      by (cases x)
    from that assms show ?thesis
      unfolding Inl x ticked_def bounded_def by simp linarith
  next
    case (Inr s')
    from that assms show ?thesis
      unfolding Inr ticked_def bounded_def by (cases "k = 0") simp_all
  qed
  from this [OF for_range_ticked] show ?thesis .
qed

lemma for_range_same_devices:
  "(relay_board (state_of (for_range s ts k)) = None) = (relay_board s = None) \<and>
   modem_open (state_of (for_range s ts k)) = modem_open s"
  using for_range_ticked [of s k ts] by (simp add: ticked_def)

lemma cycle_bounded:
  assumes "bounded s"
  shows "bounded (state_of (cycle s ts))"
proof (cases "for_range s ts 12")
  case (Inl x)
  with for_range_bounded [OF assms, of 12 ts] show ?thesis
    by (cases x) (simp add: cycle_def and_then_def)
next
  case (Inr s')
  with for_range_bounded [OF assms, of 12 ts] keeps_cycle_end [of s'] show ?thesis
    by (simp add: cycle_def and_then_def bounded_def keeps_def same_setup_def)
qed

lemma cycle_same_devices:
  "(relay_board (state_of (cycle s ts)) = None) = (relay_board s = None) \<and>
   modem_open (state_of (cycle s ts)) = modem_open s"
proof (cases "for_range s ts 12")
  case (Inl x)
  with for_range_same_devices [of s ts 12] show ?thesis
    by (cases x) (simp add: cycle_def and_then_def)
next
  case (Inr s')
  with for_range_same_devices [of s ts 12] keeps_cycle_end [of s'] show ?thesis
    by (simp add: cycle_def and_then_def keeps_def same_setup_def)
qed

lemma cycles_bounded:
  assumes "bounded s"
  shows "bounded (state_of (cycles s inp n))"
proof (induction n)
  case 0
  from assms show ?case by simp
next
  case (Suc n)
  show ?case
  proof (cases "cycles s inp n")
    case (Inl x)
    with Suc show ?thesis
      by (cases x) (simp add: and_then_def)
  next
    case (Inr s')
    with Suc have "bounded s'" by simp
    from cycle_bounded [OF this, of "inp n"] Inr show ?thesis
      by (simp add: and_then_def)
  qed
qed

subsection \<open>Leaving the main loop\<close>

lemma while_true_same_devices:
  assumes "while_true s inp c = Some y"
  shows "(relay_board (snd y) = None) = (relay_board s = None) \<and>
     modem_open (snd y) = modem_open s"
proof -
  let ?Q = "\<lambda>s y. (relay_board (snd y) = None) = (relay_board s = None) \<and>
     modem_open (snd y) = modem_open s"
  have step: "?Q s y"
    if IH: "\<And>s inp c y. loop s inp c = Some y \<Longrightarrow> ?Q s y"
      and body: "(case cycle s (inp c) of Inl x \<Rightarrow> Some x
                  | Inr s' \<Rightarrow> loop s' inp (Suc c)) = Some y"
    for loop :: "water_alarm \<Rightarrow> (nat \<Rightarrow> nat \<Rightarrow> tick) \<Rightarrow> nat \<Rightarrow> (exn \<times> water_alarm) option"
      and s inp c y
  proof (cases "cycle s (inp c)")
    case (Inl x)
    with body have "x = y" by simp
    with cycle_same_devices [of s "inp c"] Inl show ?thesis
      by (cases y) simp
  next
    case (Inr s')
    with body have "loop s' inp (Suc c) = Some y" by simp
    from IH [OF this] cycle_same_devices [of s "inp c"] Inr show ?thesis
      by simp
  qed
  show ?thesis
    by (rule while_true.raw_induct [where P = "\<lambda>s inp c y. ?Q s y", OF step assms])
qed

lemma cycles_while_true:
  "cycles s inp n = Inr s' \<Longrightarrow> while_true s inp 0 = while_true s' inp n"
proof (induction n arbitrary: s')
  case 0
  then show ?case by simp
next
  case (Suc n)
  from Suc.prems obtain s1 where s1: "cycles s inp n = Inr s1"
    and c: "cycle s1 (inp n) = Inr s'"
    by (cases "cycles s inp n") (simp_all add: and_then_def)
  from Suc.IH [OF s1] c show ?case
    by (simp add: while_true.simps [of s1])
qed

lemma while_true_exits:
  assumes "cycles s inp n = Inr s1" and "cycle s1 (inp n) = Inl x"
  shows "while_true s inp 0 = Some x"
  using cycles_while_true [OF assms(1)] assms(2)
  by (simp add: while_true.simps [of s1])

lemma cleanup_attached:
  "relay_board s = Some b \<Longrightarrow>
   cleanup s off_fault close_fault =
     (case off_fault of
        Some e \<Rightarrow> Inl (e, s)
      | None \<Rightarrow>
          (case close_fault of
             Some e \<Rightarrow> Inl (e, s\<lparr>relay_board := Some (\<lambda>n. False)\<rparr>)
           | None \<Rightarrow> Inr (s\<lparr>relay_board := Some (\<lambda>n. False), modem_open := False\<rparr>)))"
  by (simp add: cleanup_def all_off_def split: option.split)

text \<open>
  C8, amended: the main loop ends only by an exception, and whenever it ends on an object
  with an attached board the \<open>finally\<close> block runs. If neither cleanup call raises, all relay
  outputs are off, the modem connection is closed and the exception that left the loop
  propagates. A fault of a cleanup call is not swallowed: it propagates in place of that
  exception; a fault of \<open>all_off()\<close> leaves the object as the loop left it, with the modem
  connection open, and a fault of \<open>modem.close()\<close> leaves the relays off and the connection
  as it was.
\<close>

theorem mainloop_cleanup:
  assumes "relay_board s \<noteq> None"
    and "mainloop s inp off_fault close_fault = Some (e, s')"
  shows "while_true s inp 0 \<noteq> None \<and>
     (case off_fault of
        Some x \<Rightarrow> e = x \<and> s' = snd (the (while_true s inp 0))
      | None \<Rightarrow>
          (\<forall>n. \<not> lamp s' n) \<and>
          (case close_fault of
             Some y \<Rightarrow> e = y \<and> modem_open s' = modem_open s
           | None \<Rightarrow> e = fst (the (while_true s inp 0)) \<and> \<not> modem_open s'))"
proof (cases "while_true s inp 0")
  case None
  with assms(2) show ?thesis
    by (simp add: mainloop_def)
next
  case (Some y)
  obtain e0 s1 where y: "y = (e0, s1)"
    by (cases y)
  from while_true_same_devices [OF Some] assms(1) y
  obtain b where b: "relay_board s1 = Some b" and m: "modem_open s1 = modem_open s"
    by auto
  from assms(2) m show ?thesis
    unfolding mainloop_def Some y
    by (auto simp: cleanup_attached [OF b] lamp_def get_port_status_def
        split: option.splits)
qed

text \<open>The loop is left when a sleep is interrupted: here in the second pass, at the
  fifth tick, with the green relay lit before.\<close>

lemma interrupted_run:
  "map_option (\<lambda>(e, s'). (e, modem_open s', lamp s' 1, lamp s' 2, lamp s' 3))
     (mainloop (sample\<lparr>relay_board := Some (\<lambda>n. n = 3)\<rparr>)
        (\<lambda>c i. Tick (if c = 1 \<and> i = 4 then Some KeyboardInterrupt else None) (Inr []))
        None None) =
   Some (KeyboardInterrupt, False, False, False, False)"
  by code_simp

text \<open>
  C8, as stated, fails: when \<open>all_off()\<close> raises (here \<open>OSError\<close>, after Ctrl-C in the first
  sleep), the fault is not swallowed, it is what \<open>mainloop\<close> ends with, and \<open>modem.close()\<close>
  is not reached: the connection is still open.
\<close>

theorem mainloop_cleanup_counterexample:
  "map_option (\<lambda>(e, s'). (e, modem_open s'))
     (mainloop sample (\<lambda>c i. Tick (Some KeyboardInterrupt) (Inr []))
        (Some (Fault ''OSError'')) None) =
   Some (Fault ''OSError'', True)"
  by code_simp

theorem mainloop_cleanup_witness:
  "\<exists>s'. mainloop (sample\<lparr>relay_board := Some (\<lambda>n. n = 3)\<rparr>)
        (\<lambda>c i. Tick (if c = 1 \<and> i = 4 then Some KeyboardInterrupt else None) (Inr []))
        None None = Some (KeyboardInterrupt, s') \<and>
      (\<forall>n. \<not> lamp s' n) \<and> \<not> modem_open s'"
proof -
  let ?s = "sample\<lparr>relay_board := Some (\<lambda>n. n = 3)\<rparr>"
  let ?inp = "\<lambda>c i. Tick (if c = 1 \<and> i = (4::nat) then Some KeyboardInterrupt else None) (Inr [])"
  have "map_option fst (mainloop ?s ?inp None None) = Some KeyboardInterrupt"
    by code_simp
  then obtain s' where r: "mainloop ?s ?inp None None = Some (KeyboardInterrupt, s')"
    by (cases "mainloop ?s ?inp None None") auto
  have a: "relay_board ?s \<noteq> None"
    by simp
  from mainloop_cleanup [OF a r] r show ?thesis
    by simp
qed

subsection \<open>Passes without a reply\<close>

lemma request_status_ready:
  assumes "relay_board s = Some b" and "polite s"
  shows "\<exists>c. request_status s =
     Inr (s\<lparr>sms_calls := sms_calls s @ [(phone_number s, request_message s)],
            console := c, missing_loops := 0, awaiting_message := True\<rparr>)"
proof -
  from send_message_ready [OF assms] obtain c where
    c: "send_message s (phone_number s) (request_message s) =
          Inr (s\<lparr>sms_calls := sms_calls s @ [(phone_number s, request_message s)],
                 console := c\<rparr>)"
    by blast
  define c' where "c' = (if log s then c @ [''Sent request.''] else c)"
  have "request_status s =
     Inr (s\<lparr>sms_calls := sms_calls s @ [(phone_number s, request_message s)],
            console := c', missing_loops := 0, awaiting_message := True\<rparr>)"
    unfolding request_status_def c and_then_def c'_def
    by (simp add: print_def)
  then show ?thesis ..
qed

lemma check_for_answer_quiet:
  assumes "relay_board s = Some b" and "awaiting_message s"
    and "case l of Inr messages \<Rightarrow> messages = [] | Inl e \<Rightarrow> is_Exception e"
  shows "\<exists>c. check_for_answer s l =
     Inr (s\<lparr>console := c, missing_loops := missing_loops s + 1\<rparr>)"
proof (cases l)
  case (Inr messages)
  with assms(3) have "check_for_answer s l =
     Inr (s\<lparr>console := console s, missing_loops := missing_loops s + 1\<rparr>)"
    using assms(2) by (simp add: check_for_answer_def)
  then show ?thesis ..
next
  case (Inl e)
  define c where "c = console s @
            (''Encountered a '' @ class_name e @ '' while checking for new messages.'') #
            (if log s then [''Unable to get signal strength.''] else [])"
  from Inl assms(3) have "is_Exception e" by simp
  with Inl have "check_for_answer s l =
     Inr (s\<lparr>console := c, missing_loops := missing_loops s + 1\<rparr>)"
    using assms(2) by (simp add: check_for_answer_def exception_handler_attached [OF assms(1)] c_def)
  then show ?thesis ..
qed

lemma for_range_quiet:
  assumes "relay_board s = Some b" and "polite s"
    and "\<forall>i<Suc k. quiet (ts i)"
  shows "\<exists>c. for_range s ts (Suc k) =
     Inr (s\<lparr>sms_calls := sms_calls s @ [(phone_number s, request_message s)],
            console := c, missing_loops := int (Suc k), awaiting_message := True\<rparr>)"
  using assms(3)
proof (induction k)
  case 0
  from request_status_ready [OF assms(1,2)] obtain c where
    c: "request_status s =
     Inr (s\<lparr>sms_calls := sms_calls s @ [(phone_number s, request_message s)],
            console := c, missing_loops := 0, awaiting_message := True\<rparr>)"
    by blast
  let ?s = "s\<lparr>sms_calls := sms_calls s @ [(phone_number s, request_message s)],
            console := c, missing_loops := 0, awaiting_message := True\<rparr>"
  from 0 have q: "sleep_fault (ts 0) = None"
    "case listed (ts 0) of Inr messages \<Rightarrow> messages = [] | Inl e \<Rightarrow> is_Exception e"
    by (simp_all add: quiet_def)
  have "relay_board ?s = Some b" "awaiting_message ?s"
    using assms(1) by simp_all
  from check_for_answer_quiet [OF this q(2)] obtain c' where
    "check_for_answer ?s (listed (ts 0)) =
       Inr (?s\<lparr>console := c', missing_loops := missing_loops ?s + 1\<rparr>)"
    by blast
  moreover have "?s\<lparr>console := c', missing_loops := missing_loops ?s + 1\<rparr> =
     s\<lparr>sms_calls := sms_calls s @ [(phone_number s, request_message s)],
            console := c', missing_loops := int (Suc 0), awaiting_message := True\<rparr>"
    by simp
  ultimately have "for_range s ts (Suc 0) =
     Inr (s\<lparr>sms_calls := sms_calls s @ [(phone_number s, request_message s)],
            console := c', missing_loops := int (Suc 0), awaiting_message := True\<rparr>)"
    using c q(1) by (simp add: and_then_def tick_body_def)
  then show ?case ..
next
  case (Suc k)
  then obtain c where
    k: "for_range s ts (Suc k) =
     Inr (s\<lparr>sms_calls := sms_calls s @ [(phone_number s, request_message s)],
            console := c, missing_loops := int (Suc k), awaiting_message := True\<rparr>)"
    by fastforce
  let ?s = "s\<lparr>sms_calls := sms_calls s @ [(phone_number s, request_message s)],
            console := c, missing_loops := int (Suc k), awaiting_message := True\<rparr>"
  from Suc.prems have q: "sleep_fault (ts (Suc k)) = None"
    "case listed (ts (Suc k)) of Inr messages \<Rightarrow> messages = [] | Inl e \<Rightarrow> is_Exception e"
    by (simp_all add: quiet_def)
  have "relay_board ?s = Some b" "awaiting_message ?s"
    using assms(1) by simp_all
  from check_for_answer_quiet [OF this q(2)] obtain c' where
    "check_for_answer ?s (listed (ts (Suc k))) =
       Inr (?s\<lparr>console := c', missing_loops := missing_loops ?s + 1\<rparr>)"
    by blast
  moreover have "?s\<lparr>console := c', missing_loops := missing_loops ?s + 1\<rparr> =
     s\<lparr>sms_calls := sms_calls s @ [(phone_number s, request_message s)],
            console := c', missing_loops := int (Suc (Suc k)), awaiting_message := True\<rparr>"
    by simp
  ultimately have "for_range s ts (Suc (Suc k)) =
     Inr (s\<lparr>sms_calls := sms_calls s @ [(phone_number s, request_message s)],
            console := c', missing_loops := int (Suc (Suc k)), awaiting_message := True\<rparr>)"
    using q(1) unfolding for_range.simps(2) [of s ts "Suc k"] k
    by (simp add: and_then_def tick_body_def)
  then show ?case ..
qed

lemma cycle_end_silent:
  assumes "relay_board s = Some b" and "polite s" and "missing_loops s = 12"
  shows "\<exists>c. cycle_end s =
     Inr (if ge_half (missing_responses s + 1) (disconnect_time s)
          then s\<lparr>missing_responses := missing_responses s + 1,
                 relay_board := Some (relay_on (relay_off b (green_relay s)) (amber_relay s)),
                 sms_calls := sms_calls s @
                   map (\<lambda>n. (n, disconnect_text
                                  (s\<lparr>missing_responses := missing_responses s + 1\<rparr>)))
                       (alert_numbers s),
                 console := c\<rparr>
          else s\<lparr>missing_responses := missing_responses s + 1, console := c\<rparr>)"
proof -
  define c1 where "c1 = console s @ [''No answer received in the last '' @
      format_int ((missing_responses s + 1) * 2) @ ''m!'']"
  let ?s1 = "s\<lparr>missing_responses := missing_responses s + 1, console := c1\<rparr>"
  have unfold: "cycle_end s =
     (if ge_half (missing_responses ?s1) (disconnect_time ?s1)
      then and_then
             (light (print (''No answer received in the last '' @
                            format_int (missing_responses ?s1 * 2) @
                            '' minutes, turning amber light on.'') ?s1) ''amber'')
             (\<lambda>s2. alert_humans s2 ''disconnect'')
      else Inr ?s1)"
    using assms(3) by (simp add: cycle_end_def Let_def print_def c1_def)
  show ?thesis
  proof (cases "ge_half (missing_responses s + 1) (disconnect_time s)")
    case False
    with unfold have "cycle_end s =
      Inr (if ge_half (missing_responses s + 1) (disconnect_time s)
          then s\<lparr>missing_responses := missing_responses s + 1,
                 relay_board := Some (relay_on (relay_off b (green_relay s)) (amber_relay s)),
                 sms_calls := sms_calls s @
                   map (\<lambda>n. (n, disconnect_text
                                  (s\<lparr>missing_responses := missing_responses s + 1\<rparr>)))
                       (alert_numbers s),
                 console := c1\<rparr>
          else s\<lparr>missing_responses := missing_responses s + 1, console := c1\<rparr>)"
      by simp
    then show ?thesis ..
  next
    case True
    define c2 where "c2 = c1 @ [''No answer received in the last '' @
                            format_int ((missing_responses s + 1) * 2) @
                            '' minutes, turning amber light on.'']"
    let ?s2 = "s\<lparr>missing_responses := missing_responses s + 1, console := c2\<rparr>"
    let ?s3 = "?s2\<lparr>relay_board :=
                  Some (relay_on (relay_off b (green_relay ?s2)) (amber_relay ?s2))\<rparr>"
    have b2: "relay_board ?s2 = Some b"
      using assms(1) by simp
    have "relay_board ?s3 = Some (relay_on (relay_off b (green_relay s)) (amber_relay s))"
      "polite ?s3"
      "alert_text ?s3 ''disconnect'' =
         Some (disconnect_text (s\<lparr>missing_responses := missing_responses s + 1\<rparr>))"
      using assms(2) by (simp_all add: alert_text_def disconnect_text_def)
    from alert_humans_ready [OF this] obtain c where
      "alert_humans ?s3 ''disconnect'' =
         Inr (?s3\<lparr>sms_calls := sms_calls ?s3 @
                 map (\<lambda>n. (n, disconnect_text
                                (s\<lparr>missing_responses := missing_responses s + 1\<rparr>)))
                     (alert_numbers ?s3),
               console := c\<rparr>)"
      by blast
    moreover have "?s3\<lparr>sms_calls := sms_calls ?s3 @
                 map (\<lambda>n. (n, disconnect_text
                                (s\<lparr>missing_responses := missing_responses s + 1\<rparr>)))
                     (alert_numbers ?s3),
               console := c\<rparr> =
        s\<lparr>missing_responses := missing_responses s + 1,
                 relay_board := Some (relay_on (relay_off b (green_relay s)) (amber_relay s)),
                 sms_calls := sms_calls s @
                   map (\<lambda>n. (n, disconnect_text
                                  (s\<lparr>missing_responses := missing_responses s + 1\<rparr>)))
                       (alert_numbers s),
                 console := c\<rparr>"
      by simp
    moreover have "print (''No answer received in the last '' @
                            format_int (missing_responses ?s1 * 2) @
                            '' minutes, turning amber light on.'') ?s1 = ?s2"
      by (simp add: print_def c2_def)
    ultimately have "cycle_end s =
      Inr (if ge_half (missing_responses s + 1) (disconnect_time s)
          then s\<lparr>missing_responses := missing_responses s + 1,
                 relay_board := Some (relay_on (relay_off b (green_relay s)) (amber_relay s)),
                 sms_calls := sms_calls s @
                   map (\<lambda>n. (n, disconnect_text
                                  (s\<lparr>missing_responses := missing_responses s + 1\<rparr>)))
                       (alert_numbers s),
                 console := c\<rparr>
          else s\<lparr>missing_responses := missing_responses s + 1, console := c\<rparr>)"
      unfolding unfold using True light_amber_Some [OF b2]
      by (simp add: and_then_def)
    then show ?thesis ..
  qed
qed

lemma cycle_silent:
  assumes "relay_board s = Some b" and "polite s"
    and "\<forall>i<12. quiet (ts i)"
  shows "\<exists>c. cycle s ts =
     Inr (if ge_half (missing_responses s + 1) (disconnect_time s)
          then s\<lparr>missing_responses := missing_responses s + 1,
                 relay_board := Some (relay_on (relay_off b (green_relay s)) (amber_relay s)),
                 sms_calls := sms_calls s @ (phone_number s, request_message s) #
                   map (\<lambda>n. (n, disconnect_text
                                  (s\<lparr>missing_responses := missing_responses s + 1\<rparr>)))
                       (alert_numbers s),
                 console := c, missing_loops := 12, awaiting_message := True\<rparr>
          else s\<lparr>missing_responses := missing_responses s + 1,
                 sms_calls := sms_calls s @ [(phone_number s, request_message s)],
                 console := c, missing_loops := 12, awaiting_message := True\<rparr>)"
proof -
  have twelve: "(12::nat) = Suc 11"
    by simp
  from assms(3) have "\<forall>i<Suc 11. quiet (ts i)"
    by simp
  from for_range_quiet [OF assms(1,2) this] obtain c where
    ticks: "for_range s ts 12 =
     Inr (s\<lparr>sms_calls := sms_calls s @ [(phone_number s, request_message s)],
            console := c, missing_loops := 12, awaiting_message := True\<rparr>)"
    unfolding twelve [symmetric] by auto
  let ?s = "s\<lparr>sms_calls := sms_calls s @ [(phone_number s, request_message s)],
            console := c, missing_loops := 12, awaiting_message := True\<rparr>"
  have "relay_board ?s = Some b" "polite ?s" "missing_loops ?s = 12"
    using assms(1,2) by simp_all
  from cycle_end_silent [OF this] obtain c' where
    "cycle_end ?s =
     Inr (if ge_half (missing_responses ?s + 1) (disconnect_time ?s)
          then ?s\<lparr>missing_responses := missing_responses ?s + 1,
                 relay_board := Some (relay_on (relay_off b (green_relay ?s)) (amber_relay ?s)),
                 sms_calls := sms_calls ?s @
                   map (\<lambda>n. (n, disconnect_text
                                  (?s\<lparr>missing_responses := missing_responses ?s + 1\<rparr>)))
                       (alert_numbers ?s),
                 console := c'\<rparr>
          else ?s\<lparr>missing_responses := missing_responses ?s + 1, console := c'\<rparr>)"
    by blast
  moreover have "disconnect_text (?s\<lparr>missing_responses := missing_responses ?s + 1\<rparr>) =
      disconnect_text (s\<lparr>missing_responses := missing_responses s + 1\<rparr>)"
    by (simp add: disconnect_text_def)
  ultimately have "cycle s ts =
     Inr (if ge_half (missing_responses s + 1) (disconnect_time s)
          then s\<lparr>missing_responses := missing_responses s + 1,
                 relay_board := Some (relay_on (relay_off b (green_relay s)) (amber_relay s)),
                 sms_calls := sms_calls s @ (phone_number s, request_message s) #
                   map (\<lambda>n. (n, disconnect_text
                                  (s\<lparr>missing_responses := missing_responses s + 1\<rparr>)))
                       (alert_numbers s),
                 console := c', missing_loops := 12, awaiting_message := True\<rparr>
          else s\<lparr>missing_responses := missing_responses s + 1,
                 sms_calls := sms_calls s @ [(phone_number s, request_message s)],
                 console := c', missing_loops := 12, awaiting_message := True\<rparr>)"
    unfolding cycle_def ticks by (simp add: and_then_def)
  then show ?thesis ..
qed

text \<open>
  C3, amended: at the end of every pass of the loop in which no message arrived and which
  leaves \<open>missing_responses\<close> at or above half the disconnect threshold, the amber relay is
  switched on and the green relay off (the red relay stays as it was), and one disconnect
  alert is sent to every operator, with the text for the new count. This holds at the
  crossing and again at the end of each further such pass: the \<open>sendSms\<close> calls of the pass
  are the request followed by one disconnect alert per operator.
\<close>

theorem disconnect_alert_every_silent_cycle:
  assumes "relay_board s = Some b" and "polite s"
    and "distinct [red_relay s, amber_relay s, green_relay s]"
    and "\<forall>i<12. quiet (ts i)"
    and "disconnect_time s \<le> 2 * (missing_responses s + 1)"
  shows "raised (cycle s ts) = None \<and>
     missing_responses (state_of (cycle s ts)) = missing_responses s + 1 \<and>
     lamp (state_of (cycle s ts)) (amber_relay s) \<and>
     \<not> lamp (state_of (cycle s ts)) (green_relay s) \<and>
     lamp (state_of (cycle s ts)) (red_relay s) = lamp s (red_relay s) \<and>
     sms_calls (state_of (cycle s ts)) =
       sms_calls s @ (phone_number s, request_message s) #
       map (\<lambda>n. (n, ''The connection to the flood monitoring system at XFEL has been lost for '' @
                     format_int ((missing_responses s + 1) * 2) @ ''m.''))
           (alert_numbers s)"
proof -
  from assms(5) have "ge_half (missing_responses s + 1) (disconnect_time s)"
    by (simp add: ge_half_def)
  with cycle_silent [OF assms(1,2,4)] obtain c where
    "cycle s ts =
     Inr (s\<lparr>missing_responses := missing_responses s + 1,
                 relay_board := Some (relay_on (relay_off b (green_relay s)) (amber_relay s)),
                 sms_calls := sms_calls s @ (phone_number s, request_message s) #
                   map (\<lambda>n. (n, disconnect_text
                                  (s\<lparr>missing_responses := missing_responses s + 1\<rparr>)))
                       (alert_numbers s),
                 console := c, missing_loops := 12, awaiting_message := True\<rparr>)"
    by auto
  then show ?thesis
    using assms(1,3)
    by (simp add: raised_def lamp_def get_port_status_def relay_on_def relay_off_def
        disconnect_text_def)
qed

text \<open>Below the threshold a pass without a message sends the request only and leaves the
  relays alone.\<close>

lemma silent_cycle_below_threshold:
  assumes "relay_board s = Some b" and "polite s"
    and "\<forall>i<12. quiet (ts i)"
    and "2 * (missing_responses s + 1) < disconnect_time s"
  shows "raised (cycle s ts) = None \<and>
     missing_responses (state_of (cycle s ts)) = missing_responses s + 1 \<and>
     relay_board (state_of (cycle s ts)) = relay_board s \<and>
     sms_calls (state_of (cycle s ts)) =
       sms_calls s @ [(phone_number s, request_message s)]"
proof -
  from assms(4) have "\<not> ge_half (missing_responses s + 1) (disconnect_time s)"
    by (simp add: ge_half_def)
  with cycle_silent [OF assms(1,2,3)] obtain c where
    "cycle s ts =
     Inr (s\<lparr>missing_responses := missing_responses s + 1,
                 sms_calls := sms_calls s @ [(phone_number s, request_message s)],
                 console := c, missing_loops := 12, awaiting_message := True\<rparr>)"
    by auto
  then show ?thesis
    by (simp add: raised_def)
qed

theorem disconnect_alert_every_silent_cycle_witness:
  "map snd (sms_calls (state_of (cycle (sample\<lparr>disconnect_time := 2, missing_responses := 1\<rparr>)
      (\<lambda>i. Tick None (Inr []))))) =
     [''Water?'',
      ''The connection to the flood monitoring system at XFEL has been lost for 4m.'',
      ''The connection to the flood monitoring system at XFEL has been lost for 4m.''] \<and>
   lamp (state_of (cycle (sample\<lparr>disconnect_time := 2, missing_responses := 1\<rparr>)
      (\<lambda>i. Tick None (Inr [])))) 2"
proof -
  let ?s = "sample\<lparr>disconnect_time := 2, missing_responses := 1\<rparr>"
  have a: "relay_board ?s = Some (\<lambda>n. False)" "polite ?s"
    "distinct [red_relay ?s, amber_relay ?s, green_relay ?s]"
    "\<forall>i<12. quiet (Tick None (Inr []))"
    "disconnect_time ?s \<le> 2 * (missing_responses ?s + 1)"
    by (simp_all add: sample_def polite_def quiet_def)
  have t: "format_int ((missing_responses ?s + 1) * 2) = ''4''"
    by (simp add: format_int_def decimal.simps digit_def)
  have f: "sms_calls ?s = []" "amber_relay ?s = 2" "phone_number ?s = ''+4915100000001''"
    "request_message ?s = ''Water?''"
    "alert_numbers ?s = [''+4915100000002'', ''+4915100000003'']"
    by (simp_all add: sample_def)
  from disconnect_alert_every_silent_cycle [OF a] show ?thesis
    unfolding t f by simp
qed

text \<open>
  C3, as stated, fails: with disconnect threshold 2, the first pass without a reply ends
  with a disconnect alert to both operators, and the second, with the condition
  persisting, ends with a disconnect alert to both again.
\<close>

theorem disconnect_alert_repeated_counterexample:
  "map snd (sms_calls (state_of (cycles (sample\<lparr>disconnect_time := 2\<rparr>)
      (\<lambda>c i. Tick None (Inr [])) 2))) =
     [''Water?'',
      ''The connection to the flood monitoring system at XFEL has been lost for 2m.'',
      ''The connection to the flood monitoring system at XFEL has been lost for 2m.'',
      ''Water?'',
      ''The connection to the flood monitoring system at XFEL has been lost for 4m.'',
      ''The connection to the flood monitoring system at XFEL has been lost for 4m.'']"
  by code_simp

subsection \<open>The counter of ticks without a reply\<close>

lemma raised_simps [simp]:
  "raised (Inr s) = None" "raised (Inl (e, s)) = Some e"
  by (simp_all add: raised_def)

lemma returns_iff: "raised r = None \<longleftrightarrow> (\<exists>s. r = Inr s)"
  by (cases r) (auto simp: raised_def)

lemma returns_and_then:
  assumes "raised r = None" and "\<And>s. r = Inr s \<Longrightarrow> raised (f s) = None"
  shows "raised (and_then r f) = None"
  using assms by (cases r) (auto simp: and_then_def)

lemma alert_humans_returns:
  assumes "relay_board s = Some b" and "polite s"
    and "event = ''water'' \<or> event = ''removed'' \<or> event = ''restored'' \<or>
         event = ''disconnect''"
  shows "raised (alert_humans s event) = None"
proof -
  from assms(3) obtain w where "alert_text s event = Some w"
    by (auto simp: alert_text_def)
  from alert_humans_ready [OF assms(1,2) this] show ?thesis
    by (auto simp: returns_iff)
qed

lemma update_status_returns:
  assumes "relay_board s = Some b" and "polite s"
  shows "raised (update_status s) = None"
proof -
  have a: "raised (alert_humans (s\<lparr>relay_board := Some r\<rparr>) event) = None"
    if "event = ''water'' \<or> event = ''removed''" for r event
    using that assms(2) by (intro alert_humans_returns [where b = r]) auto
  have red: "raised (and_then (light s ''red'') (\<lambda>s1.
        and_then (alert_humans s1 ''water'') f)) = None"
    if "\<And>s2. raised (f s2) = None" for f
    unfolding light_red_Some [OF assms(1)]
    by (intro returns_and_then) (simp_all add: a that)
  have green: "raised (and_then (light s ''green'') (\<lambda>s1.
        and_then (if water s1 then alert_humans s1 ''removed'' else Inr s1) f)) = None"
    if "\<And>s2. raised (f s2) = None" for f
    unfolding light_green_Some [OF assms(1)]
    by (intro returns_and_then) (simp_all add: a that)
  show ?thesis
    unfolding update_status_def
    by (auto intro!: red green simp: Let_def)
qed


lemma polite_same_setup: "same_setup s s' \<Longrightarrow> polite s' = polite s"
  by (simp add: same_setup_def polite_def)

lemma parse_message_returns:
  assumes "relay_board s = Some b" and "polite s"
  shows "raised (parse_message s m) = None"
proof (cases "sms_number m = phone_number s")
  case False
  then show ?thesis
    by (simp add: parse_message_def)
next
  case True
  from restored_step [OF assms] obtain c where
    c: "(if ge_half (missing_responses s) (disconnect_time s)
              then alert_humans s ''restored'' else Inr s) =
           Inr (s\<lparr>sms_calls := sms_calls s @ restored_alerts s, console := c\<rparr>)"
    by blast
  have u: "raised (update_status
      (s\<lparr>sms_calls := sms_calls s @ restored_alerts s, console := c, missing_loops := 0,
          missing_responses := 0, awaiting_message := False,
          times_water_detected := t\<rparr>)) = None" for t
    using assms by (intro update_status_returns [where b = b]) simp_all
  show ?thesis
    unfolding parse_message_def c and_then_def using True
    by (simp add: Let_def u)
qed

lemma parse_all_returns:
  assumes "relay_board s \<noteq> None" and "polite s"
  shows "raised (parse_all s ms) = None"
  using assms
proof (induction ms arbitrary: s)
  case Nil
  show ?case by simp
next
  case (Cons m ms)
  from Cons.prems obtain b where b: "relay_board s = Some b"
    by auto
  from parse_message_returns [OF b Cons.prems(2), of m] obtain s' where
    s': "parse_message s m = Inr s'"
    by (auto simp: returns_iff)
  with resets_parse_message [of s m] have same: "same_setup s s'"
    by (simp add: resets_def)
  from same Cons.prems(1) have 1: "relay_board s' \<noteq> None"
    by (auto simp add: same_setup_def)
  from polite_same_setup [OF same] Cons.prems(2) have 2: "polite s'"
    by simp
  from Cons.IH [OF 1 2] s' show ?case
    by (simp add: and_then_def)
qed

lemma check_for_answer_returns:
  assumes "relay_board s \<noteq> None" and "polite s"
  shows "raised (check_for_answer s (Inr ms)) = None"
proof -
  have "raised (parse_all (s\<lparr>missing_loops := l\<rparr>) ms) = None" for l
    using assms by (intro parse_all_returns) simp_all
  with parse_all_returns [OF assms, of ms] show ?thesis
    by (simp add: check_for_answer_def)
qed

lemma parse_message_valid_reset:
  assumes "sms_number m = phone_number s" and "parse_message s m = Inr s'"
  shows "missing_loops s' = 0 \<and> \<not> awaiting_message s'"
proof (cases "if ge_half (missing_responses s) (disconnect_time s)
            then alert_humans s ''restored'' else Inr s")
  case (Inl x)
  with assms show ?thesis
    by (simp add: parse_message_def and_then_def)
next
  case (Inr s1)
  have u: "missing_loops (state_of (update_status
             (s1\<lparr>missing_loops := 0, missing_responses := 0, awaiting_message := False,
                 times_water_detected := t\<rparr>))) = 0 \<and>
       \<not> awaiting_message (state_of (update_status
             (s1\<lparr>missing_loops := 0, missing_responses := 0, awaiting_message := False,
                 times_water_detected := t\<rparr>)))" for t
    using keeps_update_status [of "s1\<lparr>missing_loops := 0, missing_responses := 0,
        awaiting_message := False, times_water_detected := t\<rparr>"]
    by (simp add: keeps_def)
  have "parse_message s m =
       (if sms_text m = water_message s1 then
          update_status (s1\<lparr>missing_loops := 0, missing_responses := 0,
             awaiting_message := False,
             times_water_detected := times_water_detected s1 + 1\<rparr>)
        else if sms_text m = no_water_message s1 then
          update_status (s1\<lparr>missing_loops := 0, missing_responses := 0,
             awaiting_message := False, times_water_detected := 0\<rparr>)
        else Inr (print (''Unknown message '' @ apostrophe @ sms_text m @ apostrophe)
                    (s1\<lparr>missing_loops := 0, missing_responses := 0,
                       awaiting_message := False\<rparr>)))"
    using assms(1) Inr by (simp add: parse_message_def and_then_def)
  with assms(2) u [of "times_water_detected s1 + 1"] u [of 0] show ?thesis
    by (auto simp: print_def split: if_splits)
qed

lemma parse_all_valid_reset:
  assumes "\<exists>m\<in>set ms. sms_number m = phone_number s" and "parse_all s ms = Inr s'"
  shows "missing_loops s' = 0 \<and> \<not> awaiting_message s'"
  using assms
proof (induction ms arbitrary: s)
  case Nil
  then show ?case by simp
next
  case (Cons m ms)
  from Cons.prems(2) obtain s1 where s1: "parse_message s m = Inr s1"
    and rest: "parse_all s1 ms = Inr s'"
    by (cases "parse_message s m") (simp_all add: and_then_def)
  from resets_parse_message [of s m] s1 have p: "phone_number s1 = phone_number s"
    by (simp add: resets_def same_setup_def)
  show ?case
  proof (cases "\<exists>m\<in>set ms. sms_number m = phone_number s")
    case True
    with p have "\<exists>m\<in>set ms. sms_number m = phone_number s1"
      by simp
    from Cons.IH [OF this rest] show ?thesis .
  next
    case False
    with Cons.prems(1) have "sms_number m = phone_number s"
      by simp
    from parse_message_valid_reset [OF this s1] have "missing_loops s1 = 0 \<and> \<not> awaiting_message s1" .
    moreover from False p have "\<forall>m\<in>set ms. sms_number m \<noteq> phone_number s1"
      by simp
    from parse_all_strangers [OF this] rest have "s' = s1\<lparr>console := console s1 @
        map (\<lambda>m. ''Unknown number '' @ sms_number m) ms\<rparr>"
      by simp
    ultimately show ?thesis
      by simp
  qed
qed

lemma resets_check_for_answer_idle:
  assumes "\<not> awaiting_message s"
  shows "resets s (state_of (check_for_answer s l))"
proof (cases l)
  case (Inr ms)
  with assms resets_parse_all [of s ms] show ?thesis
    by (simp add: check_for_answer_def)
next
  case (Inl e)
  have h: "keeps s (state_of (exception_handler s e ''checking for new messages''))"
    by (rule keeps_exception_handler)
  show ?thesis
  proof (cases "is_Exception e")
    case False
    with Inl show ?thesis
      by (simp add: check_for_answer_def)
  next
    case True
    show ?thesis
    proof (cases "exception_handler s e ''checking for new messages''")
      case (Inl x)
      with h True \<open>l = Inl e\<close> show ?thesis
        by (cases x) (simp add: check_for_answer_def keeps_resets)
    next
      case (Inr s1)
      with h assms True \<open>l = Inl e\<close> show ?thesis
        by (simp add: check_for_answer_def keeps_def resets_def)
    qed
  qed
qed

text \<open>
  C7: \<open>missing_loops\<close> stays within \<open>[0, 12]\<close>, and it is driven as follows. From an object
  whose \<open>missing_loops\<close> is within \<open>[0, 12]\<close> (the constructor's object, in which the model
  holds 0 for the attribute \<open>request_status\<close> assigns first), after any number of passes of
  \<open>while True\<close> and any \<open>k \<le> 12\<close> further ticks, whatever the modem and the sleeps do, it is
  within \<open>[0, 12]\<close>, in the state reached as well as in the state in which an exception
  left the loop. For every object \<open>u\<close>: \<open>request_status\<close>, when it returns, leaves the counter
  at 0 and a reply awaited, so tick 0 ends with the counter at 0 or 1; a drain that holds
  a message from the configured number, when \<open>check_for_answer\<close> returns, leaves the counter
  at 0 and no reply awaited; both calls do return on an attached board with a polite
  modem; an empty drain adds one exactly when a reply is awaited; one call of
  \<open>check_for_answer\<close> leaves the counter at 0, as it was, or one higher; and when no reply
  is awaited it leaves it at 0 or as it was.
\<close>

theorem missing_loops_in_range:
  assumes "0 \<le> missing_loops s \<and> missing_loops s \<le> 12" and "k \<le> 12"
  shows
    "0 \<le> missing_loops (state_of (and_then (cycles s inp n) (\<lambda>s'. for_range s' (inp n) k))) \<and>
     missing_loops (state_of (and_then (cycles s inp n) (\<lambda>s'. for_range s' (inp n) k))) \<le> 12 \<and>
     (raised (request_status u) = None \<longrightarrow>
        missing_loops (state_of (request_status u)) = 0 \<and>
        awaiting_message (state_of (request_status u))) \<and>
     (raised (tick_body u 0 t) = None \<longrightarrow>
        missing_loops (state_of (tick_body u 0 t)) = 0 \<or>
        missing_loops (state_of (tick_body u 0 t)) = 1) \<and>
     ((\<exists>m\<in>set ms. sms_number m = phone_number u) \<and>
      raised (check_for_answer u (Inr ms)) = None \<longrightarrow>
        missing_loops (state_of (check_for_answer u (Inr ms))) = 0 \<and>
        \<not> awaiting_message (state_of (check_for_answer u (Inr ms)))) \<and>
     (relay_board u \<noteq> None \<and> polite u \<longrightarrow>
        raised (request_status u) = None \<and>
        raised (check_for_answer u (Inr ms)) = None) \<and>
     check_for_answer u (Inr []) =
       Inr (if awaiting_message u then u\<lparr>missing_loops := missing_loops u + 1\<rparr> else u) \<and>
     (missing_loops (state_of (check_for_answer u l)) = 0 \<or>
      missing_loops (state_of (check_for_answer u l)) = missing_loops u \<or>
      missing_loops (state_of (check_for_answer u l)) = missing_loops u + 1) \<and>
     (\<not> awaiting_message u \<longrightarrow>
        missing_loops (state_of (check_for_answer u l)) = 0 \<or>
        missing_loops (state_of (check_for_answer u l)) = missing_loops u)"
proof -
  from assms(1) have b: "bounded s"
    by (simp add: bounded_def)
  have "bounded (state_of (and_then (cycles s inp n) (\<lambda>s'. for_range s' (inp n) k)))"
  proof (cases "cycles s inp n")
    case (Inl x)
    with cycles_bounded [OF b, of inp n] show ?thesis
      by (cases x) (simp add: and_then_def)
  next
    case (Inr s')
    with cycles_bounded [OF b, of inp n] have "bounded s'" by simp
    from for_range_bounded [OF this assms(2), of "inp n"] Inr show ?thesis
      by (simp add: and_then_def)
  qed
  then have 1: "0 \<le> missing_loops (state_of (and_then (cycles s inp n)
        (\<lambda>s'. for_range s' (inp n) k)))"
    and 2: "missing_loops (state_of (and_then (cycles s inp n)
        (\<lambda>s'. for_range s' (inp n) k))) \<le> 12"
    by (simp_all add: bounded_def)
  have 3: "raised (request_status u) = None \<longrightarrow>
        missing_loops (state_of (request_status u)) = 0 \<and>
        awaiting_message (state_of (request_status u))"
    using request_status_effect [of u]
    by (cases "request_status u") (auto simp: keeps_def)
  have 4: "raised (tick_body u 0 t) = None \<longrightarrow>
        missing_loops (state_of (tick_body u 0 t)) = 0 \<or>
        missing_loops (state_of (tick_body u 0 t)) = 1"
    using tick_body_first [of u t] by blast
  have 5: "(\<exists>m\<in>set ms. sms_number m = phone_number u) \<and>
      raised (check_for_answer u (Inr ms)) = None \<longrightarrow>
        missing_loops (state_of (check_for_answer u (Inr ms))) = 0 \<and>
        \<not> awaiting_message (state_of (check_for_answer u (Inr ms)))"
  proof
    assume a: "(\<exists>m\<in>set ms. sms_number m = phone_number u) \<and>
      raised (check_for_answer u (Inr ms)) = None"
    then have "ms \<noteq> []" by auto
    then have c: "check_for_answer u (Inr ms) = parse_all u ms"
      by (simp add: check_for_answer_def)
    with a obtain s' where "parse_all u ms = Inr s'"
      by (auto simp: returns_iff)
    with parse_all_valid_reset [of ms u s'] a c
    show "missing_loops (state_of (check_for_answer u (Inr ms))) = 0 \<and>
        \<not> awaiting_message (state_of (check_for_answer u (Inr ms)))"
      by simp
  qed
  have 6: "relay_board u \<noteq> None \<and> polite u \<longrightarrow>
        raised (request_status u) = None \<and>
        raised (check_for_answer u (Inr ms)) = None"
  proof
    assume a: "relay_board u \<noteq> None \<and> polite u"
    then obtain b where "relay_board u = Some b" by auto
    from request_status_ready [OF this] a have "raised (request_status u) = None"
      by (auto simp: returns_iff)
    with check_for_answer_returns [of u ms] a
    show "raised (request_status u) = None \<and> raised (check_for_answer u (Inr ms)) = None"
      by simp
  qed
  have 7: "check_for_answer u (Inr []) =
       Inr (if awaiting_message u then u\<lparr>missing_loops := missing_loops u + 1\<rparr> else u)"
    by (simp add: check_for_answer_def)
  have 8: "missing_loops (state_of (check_for_answer u l)) = 0 \<or>
      missing_loops (state_of (check_for_answer u l)) = missing_loops u \<or>
      missing_loops (state_of (check_for_answer u l)) = missing_loops u + 1"
    using grows_check_for_answer [of u l] by (simp add: grows_def)
  have 9: "\<not> awaiting_message u \<longrightarrow>
        missing_loops (state_of (check_for_answer u l)) = 0 \<or>
        missing_loops (state_of (check_for_answer u l)) = missing_loops u"
    using resets_check_for_answer_idle [of u l] by (simp add: resets_def)
  from 1 2 3 4 5 6 7 8 9 show ?thesis
    by (intro conjI)
qed

theorem missing_loops_in_range_witness:
  "missing_loops (state_of (and_then (cycles sample (\<lambda>c i. Tick None (Inr [])) 1)
          (\<lambda>s'. for_range s' (\<lambda>i. Tick None (Inr [])) 12))) \<le> 12 \<and>
   missing_loops (state_of (request_status
      (sample\<lparr>awaiting_message := True, missing_loops := 5\<rparr>))) = 0 \<and>
   missing_loops (state_of (check_for_answer
      (sample\<lparr>awaiting_message := True, missing_loops := 5\<rparr>)
      (Inr [Sms ''+4917000000000'' ''1'', Sms ''+4915100000001'' ''0'']))) = 0 \<and>
   check_for_answer (sample\<lparr>awaiting_message := True, missing_loops := 5\<rparr>) (Inr []) =
     Inr (sample\<lparr>awaiting_message := True, missing_loops := 6\<rparr>)"
proof -
  let ?u = "sample\<lparr>awaiting_message := True, missing_loops := 5\<rparr>"
  let ?ms = "[Sms ''+4917000000000'' ''1'', Sms ''+4915100000001'' ''0'']"
  have a: "0 \<le> missing_loops sample \<and> missing_loops sample \<le> 12"
    by (simp add: sample_def)
  have b: "(12::nat) \<le> 12"
    by simp
  have r: "relay_board ?u \<noteq> None \<and> polite ?u"
    by (simp add: sample_def polite_def)
  have v: "\<exists>m\<in>set ?ms. sms_number m = phone_number ?u"
    by (simp add: sample_def)
  have w: "awaiting_message ?u" "missing_loops ?u + 1 = 6"
    by simp_all
  note T = missing_loops_in_range [OF a b, where u = ?u and ms = ?ms and inp = "\<lambda>c i. Tick None (Inr [])"
      and n = 1]
  from T r have ret: "raised (request_status ?u) = None"
    "raised (check_for_answer ?u (Inr ?ms)) = None"
    by blast+
  from T ret v have reset: "missing_loops (state_of (check_for_answer ?u (Inr ?ms))) = 0"
    by blast
  from T ret have req: "missing_loops (state_of (request_status ?u)) = 0"
    by blast
  from T w have inc: "check_for_answer ?u (Inr []) =
     Inr (sample\<lparr>awaiting_message := True, missing_loops := 6\<rparr>)"
    by simp
  from T have "missing_loops (state_of (and_then (cycles sample (\<lambda>c i. Tick None (Inr [])) 1)
          (\<lambda>s'. for_range s' (\<lambda>i. Tick None (Inr [])) 12))) \<le> 12"
    by blast
  with reset req inc show ?thesis
    by blast
qed

text \<open>The bound is reached: a cycle of twelve ticks without a message ends with
  \<open>missing_loops = 12\<close>.\<close>

lemma missing_loops_reaches_12:
  "missing_loops (state_of (for_range sample (\<lambda>i. Tick None (Inr [])) 12)) = 12"
  by code_simp

end
